theory Spec2Isabelle
  imports Complex_Main "HOL-Library.Stream"
begin

section \<open>Configuration\<close>

text \<open>
  The module-level constants of \<^verbatim>\<open>64x64-version-scales-32x32-images.py\<close>.
  A time is the float the program holds, written as the rational number that float is:
  \<^verbatim>\<open>3.0\<close> is three, and \<^verbatim>\<open>0.1\<close>, as an IEEE double, is
  \<open>3602879701896397 / 2 ^ 55\<close>, a little more than one tenth. The model hands the
  cadence to \<^verbatim>\<open>time.sleep\<close> and never adds it up.
\<close>

definition matrix_width :: nat where
  "matrix_width = 64"

definition matrix_height :: nat where
  "matrix_height = 64"

definition animation_speed :: rat where
  "animation_speed = 3602879701896397 / 36028797018963968"

definition play_time :: rat where
  "play_time = 3"

definition transition_frames :: nat where
  "transition_frames = 5"

definition image_path :: string where
  "image_path = ''graphics/''"

definition bitmap_names :: "string list" where
  "bitmap_names = [''octopus'', ''ghost'', ''parrot'', ''girl-earing-half'', ''mona-half'']"

section \<open>Errors\<close>

text \<open>
  The three \<^verbatim>\<open>raise ValueError(...)\<close> statements of \<^verbatim>\<open>play_animation\<close> carry a
  formatted message; the model keeps what the message is built from: the clip name, the
  offending dimension and, for a width, the tile width it has to be a multiple of.
  \<open>TileValueError\<close> is the \<^verbatim>\<open>ValueError\<close> that the display library raises when a
  tile index above 255 is written to a grid; it carries the index. \<open>IndexError\<close> is a
  bitmap subscript out of range, \<open>ZeroDivisionError\<close> is Python's \<^verbatim>\<open>%\<close> by zero, and
  \<open>LoadError\<close> is any failure of the image loader.
\<close>

datatype geometry = BadWidth string nat nat | BadHeight string nat

datatype error =
    ValueError geometry
  | TileValueError nat
  | IndexError
  | ZeroDivisionError
  | LoadError string

section \<open>Bitmaps\<close>

text \<open>
  A \<^verbatim>\<open>displayio.Bitmap\<close>: a grid of palette indices kept as a list of rows, so the
  pixel at \<open>(x, y)\<close> is element \<open>x\<close> of row \<open>y\<close>. \<^verbatim>\<open>Bitmap(w, h, n)\<close> is zero
  filled. A subscript outside the grid raises.
\<close>

record bitmap =
  bwidth :: nat
  bheight :: nat
  value_count :: nat
  pixels :: "nat list list"

type_synonym palette = "nat list"

definition new_bitmap :: "nat \<Rightarrow> nat \<Rightarrow> nat \<Rightarrow> bitmap" where
  "new_bitmap w h n =
     \<lparr>bwidth = w, bheight = h, value_count = n, pixels = replicate h (replicate w 0)\<rparr>"

definition bitmap_get :: "bitmap \<Rightarrow> nat \<Rightarrow> nat \<Rightarrow> error + nat" where
  "bitmap_get b x y =
     (if x < bwidth b \<and> y < bheight b then Inr (pixels b ! y ! x) else Inl IndexError)"

definition bitmap_set :: "bitmap \<Rightarrow> nat \<Rightarrow> nat \<Rightarrow> nat \<Rightarrow> error + bitmap" where
  "bitmap_set b x y v =
     (if x < bwidth b \<and> y < bheight b
      then Inr (b\<lparr>pixels := (pixels b)[y := (pixels b ! y)[x := v]]\<rparr>)
      else Inl IndexError)"

text \<open>A \<^verbatim>\<open>for\<close> loop over a list whose body may raise: the first error ends the loop.\<close>

fun for_each :: "'a list \<Rightarrow> ('a \<Rightarrow> 's \<Rightarrow> error + 's) \<Rightarrow> 's \<Rightarrow> error + 's" where
  "for_each [] body s = Inr s"
| "for_each (i # rest) body s =
     (case body i s of Inl e \<Rightarrow> Inl e | Inr s' \<Rightarrow> for_each rest body s')"

text \<open>
  The four assignments that both scaling loops make for one source pixel: the value goes
  to \<open>(X, Y)\<close>, \<open>(X + 1, Y)\<close>, \<open>(X, Y + 1)\<close> and \<open>(X + 1, Y + 1)\<close>, in that order.
\<close>

definition set_2x2 :: "bitmap \<Rightarrow> nat \<Rightarrow> nat \<Rightarrow> nat \<Rightarrow> error + bitmap" where
  "set_2x2 scaled_bitmap X Y pixel_value =
     (case bitmap_set scaled_bitmap X Y pixel_value of
        Inl e \<Rightarrow> Inl e
      | Inr b1 \<Rightarrow>
         (case bitmap_set b1 (X + 1) Y pixel_value of
            Inl e \<Rightarrow> Inl e
          | Inr b2 \<Rightarrow>
             (case bitmap_set b2 X (Y + 1) pixel_value of
                Inl e \<Rightarrow> Inl e
              | Inr b3 \<Rightarrow> bitmap_set b3 (X + 1) (Y + 1) pixel_value)))"

subsection \<open>The helper \<^verbatim>\<open>scale_bitmap_2x\<close>\<close>

definition scale_bitmap_2x :: "bitmap \<Rightarrow> palette \<Rightarrow> error + bitmap" where
  "scale_bitmap_2x source_bitmap source_palette =
     for_each [0..<32] (\<lambda>y.
       for_each [0..<32] (\<lambda>x scaled_bitmap.
         case bitmap_get source_bitmap x y of Inl e \<Rightarrow> Inl e
         | Inr pixel_value \<Rightarrow> set_2x2 scaled_bitmap (x * 2) (y * 2) pixel_value))
       (new_bitmap 64 64 (length source_palette))"

subsection \<open>The scaling loop inside \<^verbatim>\<open>play_animation\<close>\<close>

definition scale_pixel :: "bitmap \<Rightarrow> nat \<Rightarrow> nat \<Rightarrow> nat \<Rightarrow> bitmap \<Rightarrow> error + bitmap" where
  "scale_pixel image_bit frame y x scaled_bitmap =
     (let source_x_start = frame * 32 in
      case bitmap_get image_bit (source_x_start + x) y of Inl e \<Rightarrow> Inl e
      | Inr pixel_value \<Rightarrow>
          (let dest_x_start = frame * 64
           in set_2x2 scaled_bitmap (dest_x_start + x * 2) (y * 2) pixel_value))"

definition scale_frames :: "bitmap \<Rightarrow> nat \<Rightarrow> bitmap \<Rightarrow> error + bitmap" where
  "scale_frames image_bit original_frames scaled_bitmap =
     for_each [0..<original_frames] (\<lambda>frame.
       for_each [0..<32] (\<lambda>y.
         for_each [0..<32] (\<lambda>x. scale_pixel image_bit frame y x)))
       scaled_bitmap"

text \<open>Lines 69 to 90 without the progress message: frame count, new bitmap, the loops.\<close>

definition scale_strip :: "bitmap \<Rightarrow> palette \<Rightarrow> error + bitmap" where
  "scale_strip image_bit image_pal =
     (let original_frames = bwidth image_bit div 32;
          scaled_width = original_frames * 64;
          scaled_bitmap = new_bitmap scaled_width 64 (length image_pal)
      in scale_frames image_bit original_frames scaled_bitmap)"

section \<open>The display, the clock and the console\<close>

record tilegrid =
  tg_bitmap :: bitmap
  tg_pixel_shader :: palette
  tg_width :: nat
  tg_height :: nat
  tg_tile_width :: nat
  tg_tile_height :: nat
  tg_x :: nat
  tg_y :: nat
  tg_tile0 :: nat

datatype log_line =
    ScalingNotice
  | FullScreenNotice
  | FrameLine string nat nat
  | ErrorLine string error

text \<open>
  What the program does to the outside, in order: a line printed, a member taken off the
  display group with \<^verbatim>\<open>group.pop()\<close>, a grid put on it with \<^verbatim>\<open>group.append\<close>, a tile
  index written with \<^verbatim>\<open>image_grid[0] = frame\<close>, a call of \<^verbatim>\<open>time.sleep\<close>.
\<close>

datatype event = Print log_line | Pop | Append | SetTile nat | Sleep rat

text \<open>
  The state the program works on. \<open>group\<close> holds the members of the display group and
  \<open>trace\<close> the events so far. Time is not computed by the model: \<open>clock\<close> lists the
  values that the coming calls of \<^verbatim>\<open>time.monotonic()\<close> return, in order, and \<open>fsub\<close> is
  the subtraction the machine does on two such floats. The list describes the run up to
  some moment; a call made when it is used up finds no reading, and the model then takes
  the time to be past every deadline.
\<close>

record world =
  group :: "tilegrid list"
  clock :: "rat list"
  fsub :: "rat \<Rightarrow> rat \<Rightarrow> rat"
  trace :: "event list"

datatype 'a outcome = Done 'a world | Raised error world

definition print_line :: "log_line \<Rightarrow> world \<Rightarrow> world" where
  "print_line l w = w\<lparr>trace := trace w @ [Print l]\<rparr>"

definition sleep :: "rat \<Rightarrow> world \<Rightarrow> world" where
  "sleep d w = w\<lparr>trace := trace w @ [Sleep d]\<rparr>"

definition monotonic :: "world \<Rightarrow> (rat \<times> world) option" where
  "monotonic w = (case clock w of [] \<Rightarrow> None | t # later \<Rightarrow> Some (t, w\<lparr>clock := later\<rparr>))"

text \<open>
  \<^verbatim>\<open>image_grid[0] = frame\<close>: the grid is the object appended to the group last, so the
  assignment changes the last member of the group. The grid keeps a tile index in one
  byte, and the assignment raises for an index above 255.
\<close>

definition write_tile :: "nat \<Rightarrow> world \<Rightarrow> world" where
  "write_tile frame w =
     w\<lparr>group := (group w)[length (group w) - 1 := (last (group w))\<lparr>tg_tile0 := frame\<rparr>],
       trace := trace w @ [SetTile frame]\<rparr>"

definition set_tile :: "nat \<Rightarrow> world \<Rightarrow> error + world" where
  "set_tile frame w = (if 255 < frame then Inl (TileValueError frame) else Inr (write_tile frame w))"

text \<open>\<^verbatim>\<open>while len(group) > 0: group.pop()\<close>\<close>

function pop_all :: "world \<Rightarrow> world" where
  "pop_all w =
     (if length (group w) > 0
      then pop_all (w\<lparr>group := butlast (group w), trace := trace w @ [Pop]\<rparr>)
      else w)"
  by pat_completeness auto
termination
  by (relation "measure (\<lambda>w. length (group w))") auto

declare pop_all.simps [simp del]

definition py_mod :: "nat \<Rightarrow> nat \<Rightarrow> error + nat" where
  "py_mod a b = (if b = 0 then Inl ZeroDivisionError else Inr (a mod b))"

section \<open>\<^verbatim>\<open>play_animation\<close>\<close>

text \<open>The storage: what \<^verbatim>\<open>adafruit_imageload.load\<close> gives for a path.\<close>

type_synonym storage = "string \<Rightarrow> error + (bitmap \<times> palette)"

definition bmp_file_path :: "string \<Rightarrow> string" where
  "bmp_file_path bitmap_name = ''/'' @ image_path @ bitmap_name @ ''.bmp''"

text \<open>
  Lines 62 to 112: the geometry check and the scaling. The result is
  \<open>(final_bitmap, frame_width, frame_height, total_frames)\<close>.
\<close>

definition prepare ::
  "string \<Rightarrow> bitmap \<Rightarrow> palette \<Rightarrow> world \<Rightarrow> (bitmap \<times> nat \<times> nat \<times> nat) outcome" where
  "prepare bitmap_name image_bit image_pal w =
     (if bheight image_bit = 32 then
        (if bwidth image_bit mod 32 \<noteq> 0
         then Raised (ValueError (BadWidth bitmap_name (bwidth image_bit) 32)) w
         else
           (let original_frames = bwidth image_bit div 32;
                w1 = print_line ScalingNotice w
            in case scale_strip image_bit image_pal of
                 Inl e \<Rightarrow> Raised e w1
               | Inr scaled_bitmap \<Rightarrow> Done (scaled_bitmap, 64, 64, original_frames) w1))
      else if bheight image_bit = 64 then
        (if bwidth image_bit mod 64 \<noteq> 0
         then Raised (ValueError (BadWidth bitmap_name (bwidth image_bit) 64)) w
         else Done (image_bit, 64, 64, bwidth image_bit div 64) (print_line FullScreenNotice w))
      else Raised (ValueError (BadHeight bitmap_name (bheight image_bit))) w)"

text \<open>
  Lines 135 to 139. Each test of the loop reads the clock once; while the time since the
  start is below the duration there is one write of the tile index, the advance of the
  index, one printed line and one sleep. With no reading left the loop ends.
\<close>

function playback_loop :: "string \<Rightarrow> nat \<Rightarrow> rat \<Rightarrow> rat \<Rightarrow> nat \<Rightarrow> world \<Rightarrow> unit outcome" where
  "playback_loop bitmap_name total_frames start_time duration frame w =
     (case monotonic w of
        None \<Rightarrow> Done () w
      | Some (t, w0) \<Rightarrow>
          (if fsub w t start_time < duration then
             (case set_tile frame w0 of
                Inl e \<Rightarrow> Raised e w0
              | Inr w1 \<Rightarrow>
                 (case py_mod (frame + 1) total_frames of
                    Inl e \<Rightarrow> Raised e w1
                  | Inr frame' \<Rightarrow>
                      playback_loop bitmap_name total_frames start_time duration frame'
                        (sleep animation_speed
                           (print_line (FrameLine bitmap_name frame' total_frames) w1))))
           else Done () w0))"
  by pat_completeness auto
termination
  by (relation "measure (\<lambda>(n, F, s, d, f, w). length (clock w))")
    (auto simp: monotonic_def set_tile_def write_tile_def sleep_def print_line_def
      split: list.splits if_splits)

declare playback_loop.simps [simp del]

text \<open>
  Lines 114 to 139: the old sprite goes, the new grid is installed, the start time is
  read, the frames run.
\<close>

definition present ::
  "string \<Rightarrow> rat \<Rightarrow> bitmap \<Rightarrow> palette \<Rightarrow> nat \<Rightarrow> nat \<Rightarrow> nat \<Rightarrow> world \<Rightarrow> unit outcome" where
  "present bitmap_name duration final_bitmap image_pal frame_width frame_height total_frames w =
     (let w1 = pop_all w;
          image_grid = \<lparr>tg_bitmap = final_bitmap, tg_pixel_shader = image_pal,
                        tg_width = 1, tg_height = 1,
                        tg_tile_width = frame_width, tg_tile_height = frame_height,
                        tg_x = 0, tg_y = 0, tg_tile0 = 0\<rparr>;
          w2 = w1\<lparr>group := group w1 @ [image_grid], trace := trace w1 @ [Append]\<rparr>;
          frame = 0
      in case monotonic w2 of
           None \<Rightarrow> Done () w2
         | Some (start_time, w3) \<Rightarrow>
             playback_loop bitmap_name total_frames start_time duration frame w3)"

definition play_animation :: "storage \<Rightarrow> string \<Rightarrow> rat \<Rightarrow> world \<Rightarrow> unit outcome" where
  "play_animation files bitmap_name duration w =
     (case files (bmp_file_path bitmap_name) of
        Inl e \<Rightarrow> Raised e w
      | Inr (image_bit, image_pal) \<Rightarrow>
          (case prepare bitmap_name image_bit image_pal w of
             Raised e w1 \<Rightarrow> Raised e w1
           | Done (final_bitmap, frame_width, frame_height, total_frames) w1 \<Rightarrow>
               present bitmap_name duration final_bitmap image_pal
                 frame_width frame_height total_frames w1))"

section \<open>\<^verbatim>\<open>transition_to_black\<close> and the main loop\<close>

fun sleep_ticks :: "nat \<Rightarrow> world \<Rightarrow> world" where
  "sleep_ticks 0 w = w"
| "sleep_ticks (Suc n) w = sleep_ticks n (sleep animation_speed w)"

definition transition_to_black :: "world \<Rightarrow> world" where
  "transition_to_black w = sleep_ticks transition_frames (pop_all w)"

text \<open>The body of the \<^verbatim>\<open>for\<close> loop: the \<^verbatim>\<open>try\<close> and its \<^verbatim>\<open>except Exception\<close>.\<close>

definition run_clip :: "storage \<Rightarrow> string \<Rightarrow> world \<Rightarrow> world" where
  "run_clip files bitmap_name w =
     (case play_animation files bitmap_name play_time w of
        Done u w1 \<Rightarrow> transition_to_black w1
      | Raised e w1 \<Rightarrow> transition_to_black (print_line (ErrorLine bitmap_name e) w1))"

fun play_clips :: "storage \<Rightarrow> string list \<Rightarrow> world \<Rightarrow> world" where
  "play_clips files [] w = w"
| "play_clips files (bitmap_name # rest) w = play_clips files rest (run_clip files bitmap_name w)"

text \<open>
  \<^verbatim>\<open>while True\<close> has no way out, so what it does is an unending sequence of passes
  over the list: \<open>main_loop\<close> gives the state at the end of the first pass, of the second
  pass, and so on.
\<close>

primcorec main_loop :: "storage \<Rightarrow> world \<Rightarrow> world stream" where
  "main_loop files w =
     play_clips files bitmap_names w ## main_loop files (play_clips files bitmap_names w)"

section \<open>Notions used to state the properties\<close>

text \<open>
  A bitmap is a proper \<open>w\<close> by \<open>h\<close> grid when it has \<open>h\<close> rows of \<open>w\<close> pixels each;
  \<open>replicated image_bit X Y\<close> is the value that doubling every pixel of every 32 wide
  frame puts at \<open>(X, Y)\<close> of the 64 wide frames; \<open>agrees\<close> says that a bitmap under
  construction already holds that value wherever \<open>W\<close> is true; \<open>px b x y\<close> is the stored
  value at \<open>(x, y)\<close>, without the range check of a subscript.
\<close>

definition grid_ok :: "nat \<Rightarrow> nat \<Rightarrow> bitmap \<Rightarrow> bool" where
  "grid_ok w h b \<longleftrightarrow>
     bwidth b = w \<and> bheight b = h \<and> length (pixels b) = h \<and>
     (\<forall>row \<in> set (pixels b). length row = w)"

definition replicated :: "bitmap \<Rightarrow> nat \<Rightarrow> nat \<Rightarrow> nat" where
  "replicated image_bit X Y = pixels image_bit ! (Y div 2) ! ((X div 64) * 32 + (X mod 64) div 2)"

definition agrees :: "bitmap \<Rightarrow> nat \<Rightarrow> nat \<Rightarrow> (nat \<Rightarrow> nat \<Rightarrow> bool) \<Rightarrow> bitmap \<Rightarrow> bool" where
  "agrees image_bit F n W s \<longleftrightarrow>
     grid_ok (F * 64) 64 s \<and> value_count s = n \<and>
     (\<forall>X Y. W X Y \<longrightarrow> pixels s ! Y ! X = replicated image_bit X Y)"

definition px :: "bitmap \<Rightarrow> nat \<Rightarrow> nat \<Rightarrow> nat" where
  "px b x y = pixels b ! y ! x"

text \<open>
  \<open>world_of\<close> is the state an outcome leaves behind, raised or not, and \<open>raised_error\<close>
  is the error it raised, if any. \<open>shown_tiles\<close> keeps of a trace the tile indices written
  to the grid, in order, and \<open>printed\<close> the lines printed; \<open>mentions\<close> tells whether an
  event is a printed line that carries the clip's name. \<open>tick_events\<close> is what tick \<open>k\<close>
  of a playback that started at frame 0 adds to the trace, and \<open>after_ticks\<close> is what \<open>k\<close>
  such ticks make of the group and the trace. \<open>the_grid\<close> is the grid that
  \<^verbatim>\<open>play_animation\<close> builds, and \<open>install\<close> is the state in which the old members are
  popped and that grid is appended.
\<close>

fun world_of :: "'a outcome \<Rightarrow> world" where
  "world_of (Done u w) = w"
| "world_of (Raised e w) = w"

fun raised_error :: "'a outcome \<Rightarrow> error option" where
  "raised_error (Done u w) = None"
| "raised_error (Raised e w) = Some e"

fun shown_tiles :: "event list \<Rightarrow> nat list" where
  "shown_tiles [] = []"
| "shown_tiles (SetTile f # es) = f # shown_tiles es"
| "shown_tiles (e # es) = shown_tiles es"

fun printed :: "event list \<Rightarrow> log_line list" where
  "printed [] = []"
| "printed (Print l # es) = l # printed es"
| "printed (e # es) = printed es"

fun mentions :: "string \<Rightarrow> event \<Rightarrow> bool" where
  "mentions name (Print (FrameLine n f t)) = (n = name)"
| "mentions name (Print (ErrorLine n e)) = (n = name)"
| "mentions name e = False"

definition tick_events :: "string \<Rightarrow> nat \<Rightarrow> nat \<Rightarrow> event list" where
  "tick_events bitmap_name total_frames k =
     [SetTile (k mod total_frames),
      Print (FrameLine bitmap_name (Suc k mod total_frames) total_frames),
      Sleep animation_speed]"

fun after_ticks :: "string \<Rightarrow> nat \<Rightarrow> nat \<Rightarrow> world \<Rightarrow> world" where
  "after_ticks bitmap_name total_frames 0 w = w"
| "after_ticks bitmap_name total_frames (Suc k) w =
     sleep animation_speed
       (print_line (FrameLine bitmap_name (Suc k mod total_frames) total_frames)
          (write_tile (k mod total_frames) (after_ticks bitmap_name total_frames k w)))"

definition the_grid :: "bitmap \<Rightarrow> palette \<Rightarrow> nat \<Rightarrow> nat \<Rightarrow> tilegrid" where
  "the_grid final_bitmap image_pal frame_width frame_height =
     \<lparr>tg_bitmap = final_bitmap, tg_pixel_shader = image_pal,
      tg_width = 1, tg_height = 1,
      tg_tile_width = frame_width, tg_tile_height = frame_height,
      tg_x = 0, tg_y = 0, tg_tile0 = 0\<rparr>"

definition install :: "bitmap \<Rightarrow> palette \<Rightarrow> nat \<Rightarrow> nat \<Rightarrow> world \<Rightarrow> world" where
  "install final_bitmap image_pal frame_width frame_height w =
     w\<lparr>group := [the_grid final_bitmap image_pal frame_width frame_height],
       trace := trace w @ replicate (length (group w)) Pop @ [Append]\<rparr>"

section \<open>Bitmap writes\<close>

lemma grid_ok_new: "grid_ok w h (new_bitmap w h n)"
  by (simp add: grid_ok_def new_bitmap_def)

lemma grid_ok_row: "grid_ok w h b \<Longrightarrow> y < h \<Longrightarrow> length (pixels b ! y) = w"
  by (simp add: grid_ok_def)

lemma bitmap_set_grid:
  assumes "grid_ok w h b" "x < w" "y < h"
  shows "\<exists>b'. bitmap_set b x y v = Inr b' \<and> grid_ok w h b' \<and> value_count b' = value_count b \<and>
           (\<forall>X Y. px b' X Y = (if X = x \<and> Y = y then v else px b X Y))"
proof -
  let ?b' = "b\<lparr>pixels := (pixels b)[y := (pixels b ! y)[x := v]]\<rparr>"
  have set: "bitmap_set b x y v = Inr ?b'"
    using assms by (simp add: bitmap_set_def grid_ok_def)
  have len: "length (pixels b) = h" and row: "length (pixels b ! y) = w"
    using assms by (simp_all add: grid_ok_def)
  have ok: "grid_ok w h ?b'"
    using assms by (auto simp: grid_ok_def dest!: set_update_subset_insert [THEN subsetD])
  have "px ?b' X Y = (if X = x \<and> Y = y then v else px b X Y)" for X Y
    using assms len row by (cases "Y = y") (simp_all add: px_def nth_list_update)
  with set ok show ?thesis by simp
qed

lemma set_2x2_grid:
  assumes "grid_ok w h b" "X + 1 < w" "Y + 1 < h"
  shows "\<exists>b'. set_2x2 b X Y v = Inr b' \<and> grid_ok w h b' \<and> value_count b' = value_count b \<and>
           (\<forall>X' Y'. px b' X' Y' =
              (if (X' = X \<or> X' = X + 1) \<and> (Y' = Y \<or> Y' = Y + 1) then v else px b X' Y'))"
proof -
  from bitmap_set_grid [OF assms(1), of X Y v] assms obtain b1 where
    b1: "bitmap_set b X Y v = Inr b1" "grid_ok w h b1" "value_count b1 = value_count b"
        "\<And>X' Y'. px b1 X' Y' = (if X' = X \<and> Y' = Y then v else px b X' Y')"
    by auto
  from bitmap_set_grid [OF b1(2), of "X + 1" Y v] assms obtain b2 where
    b2: "bitmap_set b1 (X + 1) Y v = Inr b2" "grid_ok w h b2" "value_count b2 = value_count b1"
        "\<And>X' Y'. px b2 X' Y' = (if X' = X + 1 \<and> Y' = Y then v else px b1 X' Y')"
    by auto
  from bitmap_set_grid [OF b2(2), of X "Y + 1" v] assms obtain b3 where
    b3: "bitmap_set b2 X (Y + 1) v = Inr b3" "grid_ok w h b3" "value_count b3 = value_count b2"
        "\<And>X' Y'. px b3 X' Y' = (if X' = X \<and> Y' = Y + 1 then v else px b2 X' Y')"
    by auto
  from bitmap_set_grid [OF b3(2), of "X + 1" "Y + 1" v] assms obtain b4 where
    b4: "bitmap_set b3 (X + 1) (Y + 1) v = Inr b4" "grid_ok w h b4" "value_count b4 = value_count b3"
        "\<And>X' Y'. px b4 X' Y' = (if X' = X + 1 \<and> Y' = Y + 1 then v else px b3 X' Y')"
    by auto
  have "set_2x2 b X Y v = Inr b4"
    using b1(1) b2(1) b3(1) b4(1) by (simp add: set_2x2_def)
  moreover have "px b4 X' Y' =
      (if (X' = X \<or> X' = X + 1) \<and> (Y' = Y \<or> Y' = Y + 1) then v else px b X' Y')" for X' Y'
    by (auto simp: b1(4) b2(4) b3(4) b4(4))
  ultimately show ?thesis
    using b4(2,3) b3(3) b2(3) b1(3) by simp
qed

lemma block_y: "(Y div 2 = y) \<longleftrightarrow> (Y = y * 2 \<or> Y = y * 2 + 1)" for Y y :: nat
  by presburger

lemma block_x_fwd:
  fixes X f x :: nat
  assumes "X div 64 = f" "(X mod 64) div 2 = x"
  shows "X = f * 64 + x * 2 \<or> X = f * 64 + x * 2 + 1"
proof -
  have a: "X = f * 64 + X mod 64"
    using assms(1) by (metis div_mult_mod_eq)
  have b: "X mod 64 = x * 2 \<or> X mod 64 = x * 2 + 1"
    using assms(2) block_y by blast
  show ?thesis using a b by presburger
qed

lemma block_x_bwd:
  fixes X f x :: nat
  assumes "x < 32" "X = f * 64 + x * 2 \<or> X = f * 64 + x * 2 + 1"
  shows "X div 64 = f \<and> (X mod 64) div 2 = x"
  using assms by auto

lemma for_each_append:
  "for_each (xs @ ys) body s =
     (case for_each xs body s of Inl e \<Rightarrow> Inl e | Inr t \<Rightarrow> for_each ys body t)"
  by (induction xs arbitrary: s) (auto split: sum.splits)

lemma for_each_upt:
  assumes init: "I 0 s"
    and step: "\<And>i t. i < n \<Longrightarrow> I i t \<Longrightarrow> \<exists>t'. body i t = Inr t' \<and> I (Suc i) t'"
  shows "\<exists>t. for_each [0..<n] body s = Inr t \<and> I n t"
  using step
proof (induction n)
  case 0
  then show ?case using init by simp
next
  case (Suc n)
  then obtain t where t: "for_each [0..<n] body s = Inr t" "I n t"
    by (meson less_Suc_eq)
  from Suc.prems [of n t] t(2) obtain t' where "body n t = Inr t'" "I (Suc n) t'"
    by auto
  with t(1) show ?case
    by (simp add: for_each_append)
qed

lemma agrees_weaken:
  "agrees image_bit F n W s \<Longrightarrow> (\<And>X Y. W' X Y \<Longrightarrow> W X Y) \<Longrightarrow> agrees image_bit F n W' s"
  by (simp add: agrees_def)

lemma scale_pixel_agrees:
  assumes inv: "agrees image_bit F n W s"
    and geo: "bheight image_bit = 32" "bwidth image_bit = F * 32"
    and rng: "f < F" "y < 32" "x < 32"
  shows "\<exists>s'. scale_pixel image_bit f y x s = Inr s' \<and>
           agrees image_bit F n
             (\<lambda>X Y. W X Y \<or> (X div 64 = f \<and> Y div 2 = y \<and> (X mod 64) div 2 = x)) s'"
proof -
  let ?v = "pixels image_bit ! y ! (f * 32 + x)"
  have get: "bitmap_get image_bit (f * 32 + x) y = Inr ?v"
    using geo rng by (simp add: bitmap_get_def)
  have grid: "grid_ok (F * 64) 64 s" and vc: "value_count s = n"
    and old: "\<And>X Y. W X Y \<Longrightarrow> pixels s ! Y ! X = replicated image_bit X Y"
    using inv by (simp_all add: agrees_def)
  have inx: "f * 64 + x * 2 + 1 < F * 64" and iny: "y * 2 + 1 < 64"
    using rng by simp_all
  from set_2x2_grid [OF grid inx iny, of ?v] obtain s' where
    s': "set_2x2 s (f * 64 + x * 2) (y * 2) ?v = Inr s'" "grid_ok (F * 64) 64 s'"
        "value_count s' = value_count s"
        "\<And>X' Y'. px s' X' Y' =
           (if (X' = f * 64 + x * 2 \<or> X' = f * 64 + x * 2 + 1) \<and> (Y' = y * 2 \<or> Y' = y * 2 + 1)
            then ?v else px s X' Y')"
    by blast
  have run: "scale_pixel image_bit f y x s = Inr s'"
    using get s'(1) by (simp add: scale_pixel_def)
  have new: "pixels s' ! Y ! X = replicated image_bit X Y"
    if "W X Y \<or> (X div 64 = f \<and> Y div 2 = y \<and> (X mod 64) div 2 = x)" for X Y
  proof (cases "X div 64 = f \<and> Y div 2 = y \<and> (X mod 64) div 2 = x")
    case True
    then have "(X = f * 64 + x * 2 \<or> X = f * 64 + x * 2 + 1) \<and> (Y = y * 2 \<or> Y = y * 2 + 1)"
      using block_x_fwd [of X f x] block_y [of Y y] by blast
    then have "px s' X Y = ?v"
      by (subst s'(4)) (rule if_P)
    moreover have "replicated image_bit X Y = ?v"
      using True by (simp add: replicated_def)
    ultimately show ?thesis by (simp add: px_def)
  next
    case False
    then have w: "W X Y" using that by blast
    have "\<not> ((X = f * 64 + x * 2 \<or> X = f * 64 + x * 2 + 1) \<and> (Y = y * 2 \<or> Y = y * 2 + 1))"
      using False block_x_bwd [OF rng(3), of X f] block_y [of Y y] by blast
    then have "px s' X Y = px s X Y"
      by (subst s'(4)) (rule if_not_P)
    then show ?thesis using old [OF w] by (simp add: px_def)
  qed
  show ?thesis
    using run s'(2,3) vc new by (auto simp: agrees_def)
qed

lemma scale_row_agrees:
  assumes inv: "agrees image_bit F n W s"
    and geo: "bheight image_bit = 32" "bwidth image_bit = F * 32"
    and rng: "f < F" "y < 32"
  shows "\<exists>s'. for_each [0..<32] (\<lambda>x. scale_pixel image_bit f y x) s = Inr s' \<and>
           agrees image_bit F n (\<lambda>X Y. W X Y \<or> (X div 64 = f \<and> Y div 2 = y)) s'"
proof -
  let ?I = "\<lambda>x. agrees image_bit F n
              (\<lambda>X Y. W X Y \<or> (X div 64 = f \<and> Y div 2 = y \<and> (X mod 64) div 2 < x))"
  have init: "?I 0 s"
    using inv by (rule agrees_weaken) simp
  have step: "\<exists>t'. scale_pixel image_bit f y x t = Inr t' \<and> ?I (Suc x) t'"
    if "x < 32" "?I x t" for x t
  proof -
    from scale_pixel_agrees [OF that(2) geo rng that(1)] obtain t' where
      t': "scale_pixel image_bit f y x t = Inr t'"
          "agrees image_bit F n
             (\<lambda>X Y. (W X Y \<or> (X div 64 = f \<and> Y div 2 = y \<and> (X mod 64) div 2 < x)) \<or>
                    (X div 64 = f \<and> Y div 2 = y \<and> (X mod 64) div 2 = x)) t'"
      by blast
    have "?I (Suc x) t'"
      using t'(2) by (rule agrees_weaken) (auto simp: less_Suc_eq)
    with t'(1) show ?thesis by blast
  qed
  from for_each_upt [of ?I s 32 "\<lambda>x. scale_pixel image_bit f y x", OF init step]
  obtain s' where s': "for_each [0..<32] (\<lambda>x. scale_pixel image_bit f y x) s = Inr s'" "?I 32 s'"
    by blast
  have "(X mod 64) div 2 < 32" for X :: nat
    by simp
  then have "agrees image_bit F n (\<lambda>X Y. W X Y \<or> (X div 64 = f \<and> Y div 2 = y)) s'"
    using s'(2) by (simp add: agrees_def)
  with s'(1) show ?thesis by blast
qed

lemma scale_frame_agrees:
  assumes inv: "agrees image_bit F n W s"
    and geo: "bheight image_bit = 32" "bwidth image_bit = F * 32"
    and rng: "f < F"
  shows "\<exists>s'. for_each [0..<32] (\<lambda>y. for_each [0..<32] (\<lambda>x. scale_pixel image_bit f y x)) s
             = Inr s' \<and>
           agrees image_bit F n (\<lambda>X Y. W X Y \<or> (X div 64 = f \<and> Y div 2 < 32)) s'"
proof -
  let ?I = "\<lambda>y. agrees image_bit F n (\<lambda>X Y. W X Y \<or> (X div 64 = f \<and> Y div 2 < y))"
  have init: "?I 0 s"
    using inv by (rule agrees_weaken) simp
  have step: "\<exists>t'. for_each [0..<32] (\<lambda>x. scale_pixel image_bit f y x) t = Inr t' \<and> ?I (Suc y) t'"
    if "y < 32" "?I y t" for y t
  proof -
    from scale_row_agrees [OF that(2) geo rng that(1)] obtain t' where
      t': "for_each [0..<32] (\<lambda>x. scale_pixel image_bit f y x) t = Inr t'"
          "agrees image_bit F n
             (\<lambda>X Y. (W X Y \<or> (X div 64 = f \<and> Y div 2 < y)) \<or> (X div 64 = f \<and> Y div 2 = y)) t'"
      by blast
    have "?I (Suc y) t'"
      using t'(2) by (rule agrees_weaken) (auto simp: less_Suc_eq)
    with t'(1) show ?thesis by blast
  qed
  from for_each_upt [of ?I s 32
      "\<lambda>y. for_each [0..<32] (\<lambda>x. scale_pixel image_bit f y x)", OF init step]
  show ?thesis by blast
qed

lemma scale_frames_agrees:
  assumes geo: "bheight image_bit = 32" "bwidth image_bit = F * 32"
  shows "\<exists>s'. scale_frames image_bit F (new_bitmap (F * 64) 64 n) = Inr s' \<and>
           agrees image_bit F n (\<lambda>X Y. X div 64 < F \<and> Y div 2 < 32) s'"
proof -
  let ?I = "\<lambda>f. agrees image_bit F n (\<lambda>X Y. X div 64 < f \<and> Y div 2 < 32)"
  let ?body = "\<lambda>f. for_each [0..<32] (\<lambda>y. for_each [0..<32] (\<lambda>x. scale_pixel image_bit f y x))"
  have init: "?I 0 (new_bitmap (F * 64) 64 n)"
    by (simp add: agrees_def grid_ok_new) (simp add: new_bitmap_def)
  have step: "\<exists>t'. ?body f t = Inr t' \<and> ?I (Suc f) t'" if "f < F" "?I f t" for f t
  proof -
    from scale_frame_agrees [OF that(2) geo that(1)] obtain t' where
      t': "?body f t = Inr t'"
          "agrees image_bit F n
             (\<lambda>X Y. (X div 64 < f \<and> Y div 2 < 32) \<or> (X div 64 = f \<and> Y div 2 < 32)) t'"
      by blast
    have "?I (Suc f) t'"
      using t'(2) by (rule agrees_weaken) (auto simp: less_Suc_eq)
    with t'(1) show ?thesis by blast
  qed
  from for_each_upt [of ?I "new_bitmap (F * 64) 64 n" F ?body, OF init step]
  show ?thesis by (simp add: scale_frames_def)
qed

lemma scale_strip_closed_form:
  assumes "bheight image_bit = 32" "bwidth image_bit mod 32 = 0"
  shows "scale_strip image_bit image_pal =
     Inr \<lparr>bwidth = bwidth image_bit div 32 * 64, bheight = 64,
          value_count = length image_pal,
          pixels = map (\<lambda>Y. map (\<lambda>X. replicated image_bit X Y) [0..<bwidth image_bit div 32 * 64])
                     [0..<64]\<rparr>"
proof -
  define F where "F = bwidth image_bit div 32"
  have w: "bwidth image_bit = F * 32"
    using assms(2) by (auto simp: F_def)
  from scale_frames_agrees [OF assms(1) w, of "length image_pal"] obtain s where
    s: "scale_frames image_bit F (new_bitmap (F * 64) 64 (length image_pal)) = Inr s"
       "agrees image_bit F (length image_pal) (\<lambda>X Y. X div 64 < F \<and> Y div 2 < 32) s"
    by blast
  have grid: "bwidth s = F * 64" "bheight s = 64" "length (pixels s) = 64"
      "\<And>Y. Y < 64 \<Longrightarrow> length (pixels s ! Y) = F * 64" "value_count s = length image_pal"
    using s(2) by (simp_all add: agrees_def grid_ok_def)
  have val: "pixels s ! Y ! X = replicated image_bit X Y" if "X < F * 64" "Y < 64" for X Y
  proof -
    have "X div 64 < F" "Y div 2 < 32"
      using that by (simp_all add: less_mult_imp_div_less div_less_iff_less_mult)
    then show ?thesis using s(2) by (simp add: agrees_def)
  qed
  have "pixels s = map (\<lambda>Y. map (\<lambda>X. replicated image_bit X Y) [0..<F * 64]) [0..<64]"
  proof (rule nth_equalityI)
    show "length (pixels s) = length (map (\<lambda>Y. map (\<lambda>X. replicated image_bit X Y) [0..<F * 64]) [0..<64])"
      by (simp add: grid(3))
  next
    fix Y assume "Y < length (pixels s)"
    then have Y: "Y < 64" by (simp add: grid(3))
    have "pixels s ! Y = map (\<lambda>X. replicated image_bit X Y) [0..<F * 64]"
      by (rule nth_equalityI) (simp_all add: grid(4) [OF Y] val [OF _ Y])
    then show "pixels s ! Y = map (\<lambda>Y. map (\<lambda>X. replicated image_bit X Y) [0..<F * 64]) [0..<64] ! Y"
      using Y by simp
  qed
  then have "s = \<lparr>bwidth = F * 64, bheight = 64, value_count = length image_pal,
          pixels = map (\<lambda>Y. map (\<lambda>X. replicated image_bit X Y) [0..<F * 64]) [0..<64]\<rparr>"
    using grid(1,2,5) by simp
  then show ?thesis
    using s(1) by (simp add: scale_strip_def F_def Let_def)
qed

section \<open>The scaling step\<close>

lemma replicated_get:
  assumes "bheight image_bit = 32" "bwidth image_bit mod 32 = 0"
    and "X < bwidth image_bit div 32 * 64" "Y < 64"
  shows "bitmap_get image_bit (X div 64 * 32 + X mod 64 div 2) (Y div 2)
           = Inr (replicated image_bit X Y)"
proof -
  have "X div 64 < bwidth image_bit div 32"
    using assms(3) by (simp add: div_less_iff_less_mult)
  then have "(X div 64 + 1) * 32 \<le> bwidth image_bit div 32 * 32"
    by (simp only: mult_le_mono1 Suc_leI Suc_eq_plus1 [symmetric])
  moreover have "bwidth image_bit div 32 * 32 = bwidth image_bit"
    using assms(2) by auto
  moreover have "X mod 64 div 2 < 32"
    by simp
  ultimately have "X div 64 * 32 + X mod 64 div 2 < bwidth image_bit"
    by simp
  moreover have "Y div 2 < 32"
    using assms(4) by simp
  ultimately show ?thesis
    using assms(1) by (simp add: bitmap_get_def replicated_def)
qed

lemma scale_strip_get:
  assumes "bheight image_bit = 32" "bwidth image_bit mod 32 = 0"
    and "X < bwidth image_bit div 32 * 64" "Y < 64"
  shows "\<exists>scaled. scale_strip image_bit image_pal = Inr scaled \<and>
           bwidth scaled = bwidth image_bit div 32 * 64 \<and> bheight scaled = 64 \<and>
           value_count scaled = length image_pal \<and>
           bitmap_get scaled X Y = Inr (replicated image_bit X Y)"
  using assms(3,4)
  by (simp add: scale_strip_closed_form [OF assms(1,2)] bitmap_get_def)

text \<open>
  Claim C1. A strip of height 32 whose width is a multiple of 32 passes the check, and
  the scaling step gives a bitmap of width \<open>F * 64\<close> and height 64, \<open>F\<close> being the
  number of frames. For every frame \<open>f\<close> and source pixel \<open>(x, y)\<close> of that frame, the four
  pixels \<open>(f * 64 + 2 * x, 2 * y)\<close>, \<open>(f * 64 + 2 * x + 1, 2 * y)\<close>,
  \<open>(f * 64 + 2 * x, 2 * y + 1)\<close> and \<open>(f * 64 + 2 * x + 1, 2 * y + 1)\<close> hold the value
  of the source at \<open>(f * 32 + x, y)\<close>. Nothing else is written: every pixel \<open>(X, Y)\<close> of
  the result is the source pixel it lies over.
\<close>

theorem scaling_replicates_2x2:
  assumes "bheight image_bit = 32" "bwidth image_bit mod 32 = 0"
    and "f < bwidth image_bit div 32" "x < 32" "y < 32"
    and "X < bwidth image_bit div 32 * 64" "Y < 64"
  shows "\<exists>scaled v.
           scale_strip image_bit image_pal = Inr scaled \<and>
           prepare bitmap_name image_bit image_pal w =
             Done (scaled, 64, 64, bwidth image_bit div 32) (print_line ScalingNotice w) \<and>
           bwidth scaled = bwidth image_bit div 32 * 64 \<and> bheight scaled = 64 \<and>
           bitmap_get image_bit (f * 32 + x) y = Inr v \<and>
           bitmap_get scaled (f * 64 + 2 * x) (2 * y) = Inr v \<and>
           bitmap_get scaled (f * 64 + 2 * x + 1) (2 * y) = Inr v \<and>
           bitmap_get scaled (f * 64 + 2 * x) (2 * y + 1) = Inr v \<and>
           bitmap_get scaled (f * 64 + 2 * x + 1) (2 * y + 1) = Inr v \<and>
           bitmap_get scaled X Y =
             bitmap_get image_bit (X div 64 * 32 + X mod 64 div 2) (Y div 2)"
proof -
  let ?F = "bwidth image_bit div 32"
  let ?s = "\<lparr>bwidth = ?F * 64, bheight = 64, value_count = length image_pal,
          pixels = map (\<lambda>Y. map (\<lambda>X. replicated image_bit X Y) [0..<?F * 64]) [0..<64]\<rparr>"
  let ?v = "pixels image_bit ! y ! (f * 32 + x)"
  have run: "scale_strip image_bit image_pal = Inr ?s"
    by (rule scale_strip_closed_form [OF assms(1,2)])
  have prep: "prepare bitmap_name image_bit image_pal w =
      Done (?s, 64, 64, ?F) (print_line ScalingNotice w)"
    using assms(1,2) by (simp add: prepare_def run Let_def)
  have at: "bitmap_get ?s X' Y' = Inr (replicated image_bit X' Y')"
    if "X' < ?F * 64" "Y' < 64" for X' Y'
    using that by (simp add: bitmap_get_def)
  have w: "bwidth image_bit = ?F * 32"
    using assms(2) by auto
  have src: "bitmap_get image_bit (f * 32 + x) y = Inr ?v"
  proof -
    have "f * 32 + x < ?F * 32" using assms(3,4) by simp
    then show ?thesis using assms(1,5) w by (simp add: bitmap_get_def)
  qed
  have inx: "f * 64 + 2 * x < ?F * 64" "f * 64 + 2 * x + 1 < ?F * 64"
    using assms(3,4) by simp_all
  have iny: "2 * y < 64" "2 * y + 1 < 64"
    using assms(5) by simp_all
  have bx: "(f * 64 + 2 * x) div 64 = f \<and> (f * 64 + 2 * x) mod 64 div 2 = x"
    "(f * 64 + 2 * x + 1) div 64 = f \<and> (f * 64 + 2 * x + 1) mod 64 div 2 = x"
    using block_x_bwd [OF assms(4), of "f * 64 + 2 * x" f]
      block_x_bwd [OF assms(4), of "f * 64 + 2 * x + 1" f]
    by (simp_all add: mult.commute)
  have by': "(2 * y) div 2 = y" "(2 * y + 1) div 2 = y"
    by simp_all
  have r00: "replicated image_bit (f * 64 + 2 * x) (2 * y) = ?v"
    by (simp only: replicated_def bx by')
  have r10: "replicated image_bit (f * 64 + 2 * x + 1) (2 * y) = ?v"
    by (simp only: replicated_def bx by')
  have r01: "replicated image_bit (f * 64 + 2 * x) (2 * y + 1) = ?v"
    by (simp only: replicated_def bx by')
  have r11: "replicated image_bit (f * 64 + 2 * x + 1) (2 * y + 1) = ?v"
    by (simp only: replicated_def bx by')
  have p00: "bitmap_get ?s (f * 64 + 2 * x) (2 * y) = Inr ?v"
    using at [OF inx(1) iny(1)] r00 by simp
  have p10: "bitmap_get ?s (f * 64 + 2 * x + 1) (2 * y) = Inr ?v"
    using at [OF inx(2) iny(1)] r10 by simp
  have p01: "bitmap_get ?s (f * 64 + 2 * x) (2 * y + 1) = Inr ?v"
    using at [OF inx(1) iny(2)] r01 by simp
  have p11: "bitmap_get ?s (f * 64 + 2 * x + 1) (2 * y + 1) = Inr ?v"
    using at [OF inx(2) iny(2)] r11 by simp
  have every: "bitmap_get ?s X Y =
      bitmap_get image_bit (X div 64 * 32 + X mod 64 div 2) (Y div 2)"
    using at [OF assms(6,7)] replicated_get [OF assms(1,2,6,7)] by simp
  have dims: "bwidth ?s = ?F * 64" "bheight ?s = 64"
    by simp_all
  show ?thesis
    using run prep dims src p00 p10 p01 p11 every by blast
qed

theorem scaling_replicates_2x2_witness:
  "\<exists>scaled.
     scale_strip
       \<lparr>bwidth = 64, bheight = 32, value_count = 4,
        pixels = map (\<lambda>y. map (\<lambda>x. (x + y) mod 4) [0..<64]) [0..<32]\<rparr> [0, 1, 2, 3]
       = Inr scaled \<and>
     bwidth scaled = 128 \<and> bheight scaled = 64 \<and>
     bitmap_get scaled 68 6 = Inr 1 \<and> bitmap_get scaled 69 6 = Inr 1 \<and>
     bitmap_get scaled 68 7 = Inr 1 \<and> bitmap_get scaled 69 7 = Inr 1 \<and>
     bitmap_get scaled 5 9 = Inr 2"
proof -
  let ?img = "\<lparr>bwidth = 64, bheight = 32, value_count = 4,
        pixels = map (\<lambda>y. map (\<lambda>x. (x + y) mod 4) [0..<64]) [0..<32]\<rparr>"
  have src: "bitmap_get ?img 34 3 = Inr 1" "bitmap_get ?img 2 4 = Inr 2"
    by (simp_all add: bitmap_get_def)
  have geo: "bheight ?img = 32" "bwidth ?img mod 32 = 0"
    by simp_all
  have rng: "1 < bwidth ?img div 32" "(2::nat) < 32" "(3::nat) < 32"
    "5 < bwidth ?img div 32 * 64" "(9::nat) < 64"
    by simp_all
  from scaling_replicates_2x2 [OF geo rng, of "[0, 1, 2, 3]"]
  obtain scaled v where
    r: "scale_strip ?img [0, 1, 2, 3] = Inr scaled"
       "bwidth scaled = bwidth ?img div 32 * 64" "bheight scaled = 64"
       "bitmap_get ?img (1 * 32 + 2) 3 = Inr v"
       "bitmap_get scaled (1 * 64 + 2 * 2) (2 * 3) = Inr v"
       "bitmap_get scaled (1 * 64 + 2 * 2 + 1) (2 * 3) = Inr v"
       "bitmap_get scaled (1 * 64 + 2 * 2) (2 * 3 + 1) = Inr v"
       "bitmap_get scaled (1 * 64 + 2 * 2 + 1) (2 * 3 + 1) = Inr v"
       "bitmap_get scaled 5 9 = bitmap_get ?img (5 div 64 * 32 + 5 mod 64 div 2) (9 div 2)"
    by blast
  have v: "v = 1"
    using r(4) src(1) by simp
  have "bitmap_get scaled 5 9 = Inr 2"
    using r(9) by (simp add: bitmap_get_def)
  then show ?thesis
    using r(1,2,3,5,6,7,8) v by simp
qed

section \<open>The group and the trace\<close>

lemma pop_all_closed:
  "pop_all w = w\<lparr>group := [], trace := trace w @ replicate (length (group w)) Pop\<rparr>"
proof (induction w rule: pop_all.induct)
  case (1 w)
  show ?case
  proof (cases "group w = []")
    case True
    then show ?thesis by (subst pop_all.simps) simp
  next
    case False
    let ?w = "w\<lparr>group := butlast (group w), trace := trace w @ [Pop]\<rparr>"
    have "pop_all w = pop_all ?w"
      using False by (subst pop_all.simps) simp
    also have "\<dots> = ?w\<lparr>group := [], trace := trace ?w @ replicate (length (group ?w)) Pop\<rparr>"
      using False by (intro 1) simp
    also have "\<dots> = w\<lparr>group := [], trace := trace w @ replicate (length (group w)) Pop\<rparr>"
    proof -
      have "Pop # replicate (length (group w) - 1) Pop = replicate (length (group w)) Pop"
        using False by (cases "group w") simp_all
      then show ?thesis by simp
    qed
    finally show ?thesis .
  qed
qed

lemma sleep_ticks_closed:
  "sleep_ticks n w = w\<lparr>trace := trace w @ replicate n (Sleep animation_speed)\<rparr>"
proof (induction n arbitrary: w)
  case 0
  show ?case by simp
next
  case (Suc n)
  show ?case
    by (simp add: Suc sleep_def replicate_append_same)
qed

lemma transition_closed:
  "transition_to_black w =
     w\<lparr>group := [],
       trace := trace w @ replicate (length (group w)) Pop @
                replicate transition_frames (Sleep animation_speed)\<rparr>"
  by (simp add: transition_to_black_def pop_all_closed sleep_ticks_closed)

lemma shown_tiles_append: "shown_tiles (es @ es') = shown_tiles es @ shown_tiles es'"
proof (induction es)
  case Nil
  show ?case by simp
next
  case (Cons e es)
  then show ?case by (cases e) simp_all
qed

lemma printed_append: "printed (es @ es') = printed es @ printed es'"
proof (induction es)
  case Nil
  show ?case by simp
next
  case (Cons e es)
  then show ?case by (cases e) simp_all
qed

lemma shown_tiles_replicate:
  "shown_tiles (replicate n Pop) = []" "shown_tiles (replicate n (Sleep d)) = []"
  by (induction n) simp_all

lemma printed_replicate:
  "printed (replicate n Pop) = []" "printed (replicate n (Sleep d)) = []"
  by (induction n) simp_all

lemma after_ticks_keeps:
  "clock (after_ticks name F k w) = clock w" "fsub (after_ticks name F k w) = fsub w"
  by (induction k) (simp_all add: sleep_def print_line_def write_tile_def)

lemma after_ticks_clock:
  "after_ticks name F k (w\<lparr>clock := cs\<rparr>) = (after_ticks name F k w)\<lparr>clock := cs\<rparr>"
  by (induction k) (simp_all add: sleep_def print_line_def write_tile_def)

lemma trace_after_ticks:
  "trace (after_ticks name F k w) = trace w @ concat (map (tick_events name F) [0..<k])"
  by (induction k) (simp_all add: sleep_def print_line_def write_tile_def tick_events_def)

lemma shown_tick_events:
  "shown_tiles (concat (map (tick_events name F) [0..<k])) = map (\<lambda>i. i mod F) [0..<k]"
  by (induction k) (simp_all add: shown_tiles_append tick_events_def)

lemma group_after_ticks:
  assumes "group w = [g]"
  shows "group (after_ticks name F k w) =
           [g\<lparr>tg_tile0 := (if k = 0 then tg_tile0 g else (k - 1) mod F)\<rparr>]"
proof (induction k)
  case 0
  show ?case using assms by simp
next
  case (Suc k)
  then show ?case
    by (simp add: sleep_def print_line_def write_tile_def)
qed

section \<open>The playback loop\<close>

lemma playback_loop_out:
  "clock w = [] \<Longrightarrow> playback_loop name F s D f w = Done () w"
  by (subst playback_loop.simps) (simp add: monotonic_def)

lemma playback_loop_late:
  "clock w = t # later \<Longrightarrow> \<not> fsub w t s < D \<Longrightarrow>
     playback_loop name F s D f w = Done () (w\<lparr>clock := later\<rparr>)"
  by (subst playback_loop.simps) (simp add: monotonic_def)

lemma playback_loop_tile:
  "clock w = t # later \<Longrightarrow> fsub w t s < D \<Longrightarrow> 255 < f \<Longrightarrow>
     playback_loop name F s D f w = Raised (TileValueError f) (w\<lparr>clock := later\<rparr>)"
  by (subst playback_loop.simps) (simp add: monotonic_def set_tile_def)

lemma playback_loop_no_frames:
  "clock w = t # later \<Longrightarrow> fsub w t s < D \<Longrightarrow> f \<le> 255 \<Longrightarrow>
     playback_loop name 0 s D f w = Raised ZeroDivisionError (write_tile f (w\<lparr>clock := later\<rparr>))"
  by (subst playback_loop.simps) (simp add: monotonic_def set_tile_def py_mod_def)

lemma playback_loop_tick:
  assumes "clock w = t # later" "fsub w t s < D" "f \<le> 255" "0 < F"
  shows "playback_loop name F s D f w =
     playback_loop name F s D (Suc f mod F)
       (sleep animation_speed (print_line (FrameLine name (Suc f mod F) F)
          (write_tile f (w\<lparr>clock := later\<rparr>))))"
  using assms
  by (subst playback_loop.simps) (simp add: monotonic_def set_tile_def py_mod_def)

lemma playback_loop_ticks:
  assumes "0 < F"
    and "\<forall>t \<in> set pre. fsub w t s < D"
    and "\<forall>j < length pre. (k + j) mod F \<le> 255"
  shows "playback_loop name F s D (k mod F) ((after_ticks name F k w)\<lparr>clock := pre @ rest\<rparr>) =
         playback_loop name F s D ((k + length pre) mod F)
           ((after_ticks name F (k + length pre) w)\<lparr>clock := rest\<rparr>)"
  using assms(2,3)
proof (induction pre arbitrary: k)
  case Nil
  show ?case by simp
next
  case (Cons t pre)
  let ?w = "(after_ticks name F k w)\<lparr>clock := (t # pre) @ rest\<rparr>"
  have due: "fsub ?w t s < D"
    using Cons.prems(1) by (simp add: after_ticks_keeps)
  have tile: "k mod F \<le> 255"
    using Cons.prems(2) [rule_format, of 0] by simp
  have "playback_loop name F s D (k mod F) ?w =
      playback_loop name F s D (Suc (k mod F) mod F)
        (sleep animation_speed (print_line (FrameLine name (Suc (k mod F) mod F) F)
           (write_tile (k mod F) (?w\<lparr>clock := pre @ rest\<rparr>))))"
    using due tile assms(1) by (intro playback_loop_tick) simp_all
  also have "Suc (k mod F) mod F = Suc k mod F"
    by (simp add: mod_Suc_eq)
  also have "sleep animation_speed (print_line (FrameLine name (Suc k mod F) F)
           (write_tile (k mod F) (?w\<lparr>clock := pre @ rest\<rparr>))) =
      (after_ticks name F (Suc k) w)\<lparr>clock := pre @ rest\<rparr>"
    by (simp add: sleep_def print_line_def write_tile_def)
  also have "playback_loop name F s D (Suc k mod F) ((after_ticks name F (Suc k) w)\<lparr>clock := pre @ rest\<rparr>) =
      playback_loop name F s D ((Suc k + length pre) mod F)
        ((after_ticks name F (Suc k + length pre) w)\<lparr>clock := rest\<rparr>)"
  proof (rule Cons.IH)
    show "\<forall>t \<in> set pre. fsub w t s < D"
      using Cons.prems(1) by simp
    show "\<forall>j < length pre. (Suc k + j) mod F \<le> 255"
    proof (intro allI impI)
      fix j assume "j < length pre"
      then have "(k + Suc j) mod F \<le> 255"
        using Cons.prems(2) [rule_format, of "Suc j"] by simp
      then show "(Suc k + j) mod F \<le> 255" by simp
    qed
  qed
  finally show ?case by simp
qed

lemma tiles_fit: "0 < F \<Longrightarrow> F \<le> 256 \<Longrightarrow> i mod F \<le> 255" for F i :: nat
proof -
  assume "0 < F" "F \<le> 256"
  then have "i mod F < F" by simp
  with \<open>F \<le> 256\<close> show ?thesis by linarith
qed

lemma playback_loop_runs:
  assumes "0 < F" "F \<le> 256"
  shows "playback_loop name F s D 0 w =
     Done () ((after_ticks name F (length (takeWhile (\<lambda>t. fsub w t s < D) (clock w))) w)
                \<lparr>clock := tl (dropWhile (\<lambda>t. fsub w t s < D) (clock w))\<rparr>)"
proof -
  let ?P = "\<lambda>t. fsub w t s < D"
  let ?pre = "takeWhile ?P (clock w)"
  let ?rest = "dropWhile ?P (clock w)"
  let ?n = "length ?pre"
  have w: "w = (after_ticks name F 0 w)\<lparr>clock := ?pre @ ?rest\<rparr>"
    by simp
  have pre: "\<forall>t \<in> set ?pre. fsub w t s < D"
    by (auto dest: set_takeWhileD)
  have fit: "\<forall>j < ?n. (0 + j) mod F \<le> 255"
    using tiles_fit [OF assms] by simp
  have "playback_loop name F s D 0 w =
      playback_loop name F s D (0 mod F) ((after_ticks name F 0 w)\<lparr>clock := ?pre @ ?rest\<rparr>)"
    using w by simp
  also have "\<dots> = playback_loop name F s D ((0 + ?n) mod F)
      ((after_ticks name F (0 + ?n) w)\<lparr>clock := ?rest\<rparr>)"
    using assms(1) pre fit by (rule playback_loop_ticks)
  also have "\<dots> = Done () ((after_ticks name F ?n w)\<lparr>clock := tl ?rest\<rparr>)"
  proof (cases ?rest)
    case Nil
    have "clock ((after_ticks name F ?n w)\<lparr>clock := ?rest\<rparr>) = []"
      using Nil by simp
    from playback_loop_out [OF this]
    have "playback_loop name F s D ((0 + ?n) mod F) ((after_ticks name F (0 + ?n) w)\<lparr>clock := ?rest\<rparr>) =
        Done () ((after_ticks name F ?n w)\<lparr>clock := ?rest\<rparr>)"
      by simp
    moreover have "tl ?rest = ?rest"
      by (simp only: Nil list.sel(2))
    ultimately show ?thesis by (simp only:)
  next
    case (Cons t later)
    then have "\<not> ?P t"
      by (metis hd_dropWhile list.sel(1) list.distinct(1))
    then have late: "\<not> fsub ((after_ticks name F ?n w)\<lparr>clock := ?rest\<rparr>) t s < D"
      by (simp add: after_ticks_keeps)
    have "clock ((after_ticks name F ?n w)\<lparr>clock := ?rest\<rparr>) = t # later"
      using Cons by simp
    from playback_loop_late [OF this late]
    show ?thesis using Cons by simp
  qed
  finally show ?thesis .
qed

lemma playback_loop_outcome:
  assumes "clock w = cs" "group w = [g]"
  shows "(\<exists>g'. group (world_of (playback_loop name F s D f w)) = [g'] \<and>
              tg_bitmap g' = tg_bitmap g \<and> tg_pixel_shader g' = tg_pixel_shader g) \<and>
         (\<exists>l. trace (world_of (playback_loop name F s D f w)) = trace w @ l) \<and>
         (\<forall>e. raised_error (playback_loop name F s D f w) = Some e \<longrightarrow>
              e = ZeroDivisionError \<or> (\<exists>i. e = TileValueError i))"
  using assms
proof (induction cs arbitrary: w f g)
  case Nil
  then show ?case by (simp add: playback_loop_out)
next
  case (Cons t later)
  note c = Cons.prems(1) and g = Cons.prems(2)
  show ?case
  proof (cases "fsub w t s < D")
    case False
    from playback_loop_late [OF c False] show ?thesis
      using g by simp
  next
    case due: True
    show ?thesis
    proof (cases "255 < f")
      case True
      from playback_loop_tile [OF c due True] show ?thesis
        using g by simp
    next
      case False
      then have f: "f \<le> 255" by simp
      show ?thesis
      proof (cases "F = 0")
        case True
        from playback_loop_no_frames [OF c due f, of name] show ?thesis
          using g True by (simp add: write_tile_def)
      next
        case False
        then have F: "0 < F" by simp
        let ?w = "sleep animation_speed (print_line (FrameLine name (Suc f mod F) F)
            (write_tile f (w\<lparr>clock := later\<rparr>)))"
        have step: "playback_loop name F s D f w = playback_loop name F s D (Suc f mod F) ?w"
          using c due f F by (rule playback_loop_tick)
        have cw: "clock ?w = later" and gw: "group ?w = [g\<lparr>tg_tile0 := f\<rparr>]"
          and tw: "trace ?w = trace w @ [SetTile f, Print (FrameLine name (Suc f mod F) F),
              Sleep animation_speed]"
          using g by (simp_all add: sleep_def print_line_def write_tile_def)
        let ?r = "playback_loop name F s D (Suc f mod F) ?w"
        from Cons.IH [OF cw gw, of "Suc f mod F"] obtain g' l where
          a: "group (world_of ?r) = [g']" "tg_bitmap g' = tg_bitmap g"
             "tg_pixel_shader g' = tg_pixel_shader g" "trace (world_of ?r) = trace ?w @ l"
          and e: "\<forall>e. raised_error ?r = Some e \<longrightarrow>
              e = ZeroDivisionError \<or> (\<exists>i. e = TileValueError i)"
          by auto
        have "trace (world_of ?r) = trace w @
            ([SetTile f, Print (FrameLine name (Suc f mod F) F), Sleep animation_speed] @ l)"
          using a(4) tw by simp
        then show ?thesis
          unfolding step using a(1,2,3) e by blast
      qed
    qed
  qed
qed

lemma present_unfold:
  "present name D final_bitmap image_pal fw fh F w =
     (case clock w of
        [] \<Rightarrow> Done () (install final_bitmap image_pal fw fh w)
      | s # cs \<Rightarrow> playback_loop name F s D 0 ((install final_bitmap image_pal fw fh w)\<lparr>clock := cs\<rparr>))"
  by (simp add: present_def pop_all_closed monotonic_def install_def the_grid_def
      split: list.splits)

lemma present_outcome:
  "(\<exists>g. group (world_of (present name D final_bitmap image_pal fw fh F w)) = [g] \<and>
        tg_bitmap g = final_bitmap \<and> tg_pixel_shader g = image_pal) \<and>
   (\<exists>l. trace (world_of (present name D final_bitmap image_pal fw fh F w)) = trace w @ l) \<and>
   (\<forall>e. raised_error (present name D final_bitmap image_pal fw fh F w) = Some e \<longrightarrow>
        e = ZeroDivisionError \<or> (\<exists>i. e = TileValueError i))"
proof (cases "clock w")
  case Nil
  then show ?thesis
    by (simp add: present_unfold install_def the_grid_def)
next
  case (Cons s cs)
  let ?w = "(install final_bitmap image_pal fw fh w)\<lparr>clock := cs\<rparr>"
  have c: "clock ?w = cs"
    and g: "group ?w = [the_grid final_bitmap image_pal fw fh]"
    and t: "trace ?w = trace w @ replicate (length (group w)) Pop @ [Append]"
    by (simp_all add: install_def)
  let ?r = "playback_loop name F s D 0 ?w"
  from playback_loop_outcome [OF c g, of name F s D 0] obtain g' l where
    a: "group (world_of ?r) = [g']"
       "tg_bitmap g' = tg_bitmap (the_grid final_bitmap image_pal fw fh)"
       "tg_pixel_shader g' = tg_pixel_shader (the_grid final_bitmap image_pal fw fh)"
       "trace (world_of ?r) = trace ?w @ l"
    and e: "\<forall>e. raised_error ?r = Some e \<longrightarrow>
        e = ZeroDivisionError \<or> (\<exists>i. e = TileValueError i)"
    by auto
  have "trace (world_of ?r) = trace w @ (replicate (length (group w)) Pop @ [Append] @ l)"
    using a(4) t by simp
  moreover have "tg_bitmap g' = final_bitmap" "tg_pixel_shader g' = image_pal"
    using a(2,3) by (simp_all add: the_grid_def)
  moreover have "present name D final_bitmap image_pal fw fh F w = ?r"
    by (simp add: present_unfold Cons)
  ultimately show ?thesis
    using a(1) e by (simp only:) blast
qed

lemma present_installs:
  "\<exists>g. group (world_of (present name D final_bitmap image_pal fw fh F w)) = [g] \<and>
       tg_bitmap g = final_bitmap \<and> tg_pixel_shader g = image_pal"
  using present_outcome by blast

lemma present_not_value_error:
  "present name D final_bitmap image_pal fw fh F w \<noteq> Raised (ValueError g) w1"
proof
  assume "present name D final_bitmap image_pal fw fh F w = Raised (ValueError g) w1"
  then have "raised_error (present name D final_bitmap image_pal fw fh F w) = Some (ValueError g)"
    by simp
  with present_outcome [of name D final_bitmap image_pal fw fh F w] show False
    by blast
qed

lemma present_runs:
  assumes "0 < F" "F \<le> 256" "clock w = s # cs"
  shows "present name D final_bitmap image_pal fw fh F w =
     Done () ((after_ticks name F (length (takeWhile (\<lambda>t. fsub w t s < D) cs))
                  (install final_bitmap image_pal fw fh w))
                \<lparr>clock := tl (dropWhile (\<lambda>t. fsub w t s < D) cs)\<rparr>)"
proof -
  let ?w = "(install final_bitmap image_pal fw fh w)\<lparr>clock := cs\<rparr>"
  have "present name D final_bitmap image_pal fw fh F w = playback_loop name F s D 0 ?w"
    by (simp add: present_unfold assms(3))
  also have "\<dots> = Done () ((after_ticks name F (length (takeWhile (\<lambda>t. fsub ?w t s < D) (clock ?w))) ?w)
                \<lparr>clock := tl (dropWhile (\<lambda>t. fsub ?w t s < D) (clock ?w))\<rparr>)"
    using assms(1,2) by (rule playback_loop_runs)
  also have "\<dots> = Done () ((after_ticks name F (length (takeWhile (\<lambda>t. fsub w t s < D) cs))
                  (install final_bitmap image_pal fw fh w))
                \<lparr>clock := tl (dropWhile (\<lambda>t. fsub w t s < D) cs)\<rparr>)"
    by (simp add: install_def after_ticks_clock)
  finally show ?thesis .
qed

section \<open>The geometry check\<close>

lemma prepare_legacy:
  assumes "bheight image_bit = 32" "bwidth image_bit mod 32 = 0"
  shows "prepare name image_bit image_pal w =
     Done (\<lparr>bwidth = bwidth image_bit div 32 * 64, bheight = 64,
             value_count = length image_pal,
             pixels = map (\<lambda>Y. map (\<lambda>X. replicated image_bit X Y)
                        [0..<bwidth image_bit div 32 * 64]) [0..<64]\<rparr>,
           64, 64, bwidth image_bit div 32)
          (print_line ScalingNotice w)"
  using assms by (simp add: prepare_def scale_strip_closed_form [OF assms] Let_def)

lemma prepare_target:
  assumes "bheight image_bit = 64" "bwidth image_bit mod 64 = 0"
  shows "prepare name image_bit image_pal w =
     Done (image_bit, 64, 64, bwidth image_bit div 64) (print_line FullScreenNotice w)"
  using assms by (simp add: prepare_def)

lemma prepare_rejects:
  "bheight image_bit = 32 \<Longrightarrow> bwidth image_bit mod 32 \<noteq> 0 \<Longrightarrow>
     prepare name image_bit image_pal w =
       Raised (ValueError (BadWidth name (bwidth image_bit) 32)) w"
  "bheight image_bit = 64 \<Longrightarrow> bwidth image_bit mod 64 \<noteq> 0 \<Longrightarrow>
     prepare name image_bit image_pal w =
       Raised (ValueError (BadWidth name (bwidth image_bit) 64)) w"
  "bheight image_bit \<noteq> 32 \<Longrightarrow> bheight image_bit \<noteq> 64 \<Longrightarrow>
     prepare name image_bit image_pal w =
       Raised (ValueError (BadHeight name (bheight image_bit))) w"
  by (simp_all add: prepare_def)

lemma prepare_trace:
  "\<exists>l. trace (world_of (prepare name image_bit image_pal w)) = trace w @ l"
proof -
  consider (legacy) "bheight image_bit = 32" "bwidth image_bit mod 32 = 0"
    | (target) "bheight image_bit = 64" "bwidth image_bit mod 64 = 0"
    | (w32) "bheight image_bit = 32" "bwidth image_bit mod 32 \<noteq> 0"
    | (w64) "bheight image_bit = 64" "bwidth image_bit mod 64 \<noteq> 0"
    | (h) "bheight image_bit \<noteq> 32" "bheight image_bit \<noteq> 64"
    by blast
  then show ?thesis
  proof cases
    case legacy
    then show ?thesis by (simp add: prepare_legacy print_line_def)
  next
    case target
    then show ?thesis by (simp add: prepare_target print_line_def)
  next
    case w32
    then show ?thesis by (simp add: prepare_rejects)
  next
    case w64
    then show ?thesis by (simp add: prepare_rejects)
  next
    case h
    then show ?thesis by (simp add: prepare_rejects)
  qed
qed

lemma prepare_done:
  assumes "prepare name image_bit image_pal w = Done (final_bitmap, fw, fh, F) w1"
  shows "fw = 64 \<and> fh = 64 \<and>
         (bheight image_bit = 32 \<and> bwidth image_bit mod 32 = 0 \<and> F = bwidth image_bit div 32 \<and>
            scale_strip image_bit image_pal = Inr final_bitmap \<and> w1 = print_line ScalingNotice w
          \<or> bheight image_bit = 64 \<and> bwidth image_bit mod 64 = 0 \<and> F = bwidth image_bit div 64 \<and>
            final_bitmap = image_bit \<and> w1 = print_line FullScreenNotice w)"
  using assms
  by (auto simp: prepare_def Let_def split: if_splits sum.splits)

section \<open>One clip, one pass, every pass\<close>

lemma play_animation_loaded:
  assumes "files (bmp_file_path name) = Inr (image_bit, image_pal)"
  shows "play_animation files name D w =
     (case prepare name image_bit image_pal w of
        Raised e w1 \<Rightarrow> Raised e w1
      | Done r w1 \<Rightarrow> present name D (fst r) image_pal (fst (snd r)) (fst (snd (snd r)))
                      (snd (snd (snd r))) w1)"
  using assms by (simp add: play_animation_def split: outcome.splits prod.splits)

lemma play_animation_trace:
  "\<exists>l. trace (world_of (play_animation files name D w)) = trace w @ l"
proof (cases "files (bmp_file_path name)")
  case (Inl err)
  then show ?thesis by (simp add: play_animation_def)
next
  case (Inr loaded)
  obtain image_bit image_pal where loaded: "loaded = (image_bit, image_pal)"
    by (cases loaded)
  from prepare_trace [of name image_bit image_pal w] obtain l where
    l: "trace (world_of (prepare name image_bit image_pal w)) = trace w @ l"
    by blast
  show ?thesis
  proof (cases "prepare name image_bit image_pal w")
    case (Raised e' w')
    then show ?thesis
      using l Inr loaded by (simp add: play_animation_def)
  next
    case (Done r w')
    obtain fb fw fh F where r: "r = (fb, fw, fh, F)"
      by (cases r)
    from present_outcome [of name D fb image_pal fw fh F w'] obtain l' where
      "trace (world_of (present name D fb image_pal fw fh F w')) = trace w' @ l'"
      by blast
    then have "trace (world_of (play_animation files name D w)) = trace w @ (l @ l')"
      using l Inr loaded Done r by (simp add: play_animation_def)
    then show ?thesis by blast
  qed
qed

lemma run_clip_trace:
  "\<exists>l. trace (run_clip files name w) = trace w @ l \<and> l \<noteq> []"
proof -
  from play_animation_trace [of files name play_time w] obtain l where
    l: "trace (world_of (play_animation files name play_time w)) = trace w @ l"
    by blast
  have five: "replicate transition_frames (Sleep animation_speed) \<noteq> []"
    by (simp add: transition_frames_def)
  show ?thesis
  proof (cases "play_animation files name play_time w")
    case (Done u w1)
    then have "trace (run_clip files name w) =
        trace w @ (l @ replicate (length (group w1)) Pop @
                   replicate transition_frames (Sleep animation_speed))"
      using l by (simp add: run_clip_def transition_closed)
    then show ?thesis using five by blast
  next
    case (Raised e w1)
    then have "trace (run_clip files name w) =
        trace w @ (l @ [Print (ErrorLine name e)] @ replicate (length (group w1)) Pop @
                   replicate transition_frames (Sleep animation_speed))"
      using l by (simp add: run_clip_def transition_closed print_line_def)
    then show ?thesis by blast
  qed
qed

lemma play_clips_trace:
  "\<exists>l. trace (play_clips files names w) = trace w @ l \<and> (names \<noteq> [] \<longrightarrow> l \<noteq> [])"
proof (induction names arbitrary: w)
  case Nil
  show ?case by simp
next
  case (Cons name names)
  from run_clip_trace [of files name w] obtain l where
    l: "trace (run_clip files name w) = trace w @ l" "l \<noteq> []"
    by blast
  from Cons [of "run_clip files name w"] obtain l' where
    "trace (play_clips files names (run_clip files name w)) = trace (run_clip files name w) @ l'"
    by blast
  then have "trace (play_clips files (name # names) w) = trace w @ (l @ l')"
    using l(1) by simp
  moreover have "l @ l' \<noteq> []"
    using l(2) by simp
  ultimately show ?case by blast
qed

lemma main_loop_pass:
  "main_loop files w !! n = (play_clips files bitmap_names ^^ Suc n) w"
proof (induction n arbitrary: w)
  case 0
  show ?case by simp
next
  case (Suc n)
  have "main_loop files w !! Suc n = main_loop files (play_clips files bitmap_names w) !! n"
    by simp
  also have "\<dots> = (play_clips files bitmap_names ^^ Suc n) (play_clips files bitmap_names w)"
    by (rule Suc)
  also have "\<dots> = (play_clips files bitmap_names ^^ Suc (Suc n)) w"
    by (simp only: funpow_swap1 funpow.simps o_apply)
  finally show ?case .
qed

lemma playback_loop_divides:
  assumes "clock w = cs" "0 < F"
  shows "raised_error (playback_loop name F s D f w) \<noteq> Some ZeroDivisionError"
  using assms(1)
proof (induction cs arbitrary: w f)
  case Nil
  then show ?case by (simp add: playback_loop_out)
next
  case (Cons t later)
  show ?case
  proof (cases "fsub w t s < D")
    case False
    from playback_loop_late [OF Cons.prems False] show ?thesis by simp
  next
    case due: True
    show ?thesis
    proof (cases "255 < f")
      case True
      from playback_loop_tile [OF Cons.prems due True] show ?thesis by simp
    next
      case False
      then have f: "f \<le> 255" by simp
      let ?w = "sleep animation_speed (print_line (FrameLine name (Suc f mod F) F)
          (write_tile f (w\<lparr>clock := later\<rparr>)))"
      have step: "playback_loop name F s D f w = playback_loop name F s D (Suc f mod F) ?w"
        using Cons.prems due f assms(2) by (rule playback_loop_tick)
      have "clock ?w = later"
        by (simp add: sleep_def print_line_def write_tile_def)
      from Cons.IH [OF this] show ?thesis
        unfolding step .
    qed
  qed
qed

lemma present_divides:
  assumes "0 < F"
  shows "raised_error (present name D final_bitmap image_pal fw fh F w) \<noteq> Some ZeroDivisionError"
proof (cases "clock w")
  case Nil
  then show ?thesis by (simp add: present_unfold)
next
  case (Cons s cs)
  have "clock ((install final_bitmap image_pal fw fh w)\<lparr>clock := cs\<rparr>) = cs"
    by simp
  from playback_loop_divides [OF this assms] show ?thesis
    by (simp add: present_unfold Cons)
qed

lemma present_tile_error:
  assumes "256 < F" "clock w = s # pre @ t # later" "length pre = 256"
    and "\<forall>x \<in> set pre. fsub w x s < D" "fsub w t s < D"
  shows "present name D final_bitmap image_pal fw fh F w =
     Raised (TileValueError 256)
       ((after_ticks name F 256 (install final_bitmap image_pal fw fh w))\<lparr>clock := later\<rparr>)"
proof -
  let ?i = "install final_bitmap image_pal fw fh w"
  have F: "0 < F" using assms(1) by simp
  have fs: "fsub ?i = fsub w"
    by (simp add: install_def)
  have pre: "\<forall>x \<in> set pre. fsub ?i x s < D"
    using assms(4) by (simp add: fs)
  have fit: "\<forall>j < length pre. (0 + j) mod F \<le> 255"
    using assms(1,3) by simp
  have "present name D final_bitmap image_pal fw fh F w =
      playback_loop name F s D (0 mod F) ((after_ticks name F 0 ?i)\<lparr>clock := pre @ t # later\<rparr>)"
    by (simp add: present_unfold assms(2))
  also have "\<dots> = playback_loop name F s D ((0 + length pre) mod F)
      ((after_ticks name F (0 + length pre) ?i)\<lparr>clock := t # later\<rparr>)"
    using F pre fit by (rule playback_loop_ticks)
  also have "\<dots> = playback_loop name F s D 256 ((after_ticks name F 256 ?i)\<lparr>clock := t # later\<rparr>)"
    using assms(1,3) by simp
  also have "\<dots> = Raised (TileValueError 256) ((after_ticks name F 256 ?i)\<lparr>clock := later\<rparr>)"
  proof -
    have "clock ((after_ticks name F 256 ?i)\<lparr>clock := t # later\<rparr>) = t # later"
      by simp
    moreover have "fsub ((after_ticks name F 256 ?i)\<lparr>clock := t # later\<rparr>) t s < D"
      using assms(5) by (simp add: after_ticks_keeps fs)
    ultimately show ?thesis
      using playback_loop_tile [of "(after_ticks name F 256 ?i)\<lparr>clock := t # later\<rparr>" t later s D 256 name F]
      by simp
  qed
  finally show ?thesis .
qed

section \<open>Playback\<close>

text \<open>
  Claim C5 says that for any clip with at least one frame the index shown on tick \<open>k\<close> is
  \<open>k mod F\<close>, however many ticks occur. A strip of 257 frames played for 26 seconds on a
  clock that moves a tenth of a second per tick has 259 ticks due, but the write of tile
  256 raises: tiles 0 to 255 are shown and playback ends with the error.
\<close>

theorem long_strip_stops_at_tile_256:
  "raised_error
     (present ''big'' 26 (new_bitmap 16448 64 4) [0, 1, 2, 3] 64 64 257
        \<lparr>group = [], clock = map ((*) (1 / 10)) (map rat_of_nat [0..<300]), fsub = (-),
         trace = []\<rparr>) = Some (TileValueError 256) \<and>
   shown_tiles (trace (world_of
     (present ''big'' 26 (new_bitmap 16448 64 4) [0, 1, 2, 3] 64 64 257
        \<lparr>group = [], clock = map ((*) (1 / 10)) (map rat_of_nat [0..<300]), fsub = (-),
         trace = []\<rparr>))) = [0..<256] \<and>
   (1 / 10) * rat_of_nat 257 - (1 / 10) * rat_of_nat 0 < 26 \<and>
   256 mod 257 = (256 :: nat)"
proof -
  let ?g = "\<lambda>k. (1 / 10) * rat_of_nat k"
  let ?w = "\<lparr>group = [], clock = map ((*) (1 / 10)) (map rat_of_nat [0..<300]), fsub = (-),
         trace = []\<rparr>"
  have "[0..<300] = [0..<1] @ [1..<300]" "[1..<300] = [1..<257] @ [257..<300]"
    "[257..<300] = [257..<258] @ [258..<300]"
    using upt_add_eq_append [of 0 1 299] upt_add_eq_append [of 1 257 43]
      upt_add_eq_append [of 257 258 42]
    by simp_all
  then have "[0..<300] = [0..<1] @ [1..<257] @ [257..<258] @ [258..<300]"
    by simp
  then have split: "clock ?w = ?g 0 # map ?g [1..<257] @ ?g 257 # map ?g [258..<300]"
    by (simp add: upt_rec [of 0 1] upt_rec [of 257 258])
  have len: "length (map ?g [1..<257]) = 256"
    by simp
  have pre: "\<forall>x \<in> set (map ?g [1..<257]). fsub ?w x (?g 0) < 26"
    by auto
  have t: "fsub ?w (?g 257) (?g 0) < 26"
    by simp
  have F: "(256 :: nat) < 257"
    by simp
  from present_tile_error [OF F split len pre t, of "''big''" "new_bitmap 16448 64 4" "[0, 1, 2, 3]" 64 64]
  have run: "present ''big'' 26 (new_bitmap 16448 64 4) [0, 1, 2, 3] 64 64 257 ?w =
     Raised (TileValueError 256)
       ((after_ticks ''big'' 257 256 (install (new_bitmap 16448 64 4) [0, 1, 2, 3] 64 64 ?w))
          \<lparr>clock := map ?g [258..<300]\<rparr>)" .
  have "map (\<lambda>i. i mod 257) [0..<256] = [0..<256]"
    by (rule map_idI) simp
  then have shown: "shown_tiles (trace
       ((after_ticks ''big'' 257 256 (install (new_bitmap 16448 64 4) [0, 1, 2, 3] 64 64 ?w))
          \<lparr>clock := map ?g [258..<300]\<rparr>)) = [0..<256]"
    by (simp add: trace_after_ticks install_def shown_tiles_append shown_tick_events)
  show ?thesis
    unfolding run using shown by simp
qed

text \<open>
  Claim C5, amended. During playback of any clip with \<open>F\<close> frames, \<open>1 \<le> F \<le> 256\<close>, the
  index written to the grid on tick \<open>k\<close> is \<open>k mod F\<close>, for every tick that occurs, however
  many: the indices shown are \<open>0, 1, ..., F - 1, 0, 1, ...\<close>. The index is below \<open>F\<close> at
  every step, it wraps at the last frame, and after \<open>n\<close> ticks the grid shows tile
  \<open>(n - 1) mod F\<close>. The ticks that occur are the loop tests that read a time since the
  start below the duration.
\<close>

theorem frames_cycle:
  assumes "1 \<le> F" "F \<le> 256" "clock w = start_time # readings"
    and "k < length (takeWhile (\<lambda>t. fsub w t start_time < D) readings)"
  shows "\<exists>w'.
           present name D final_bitmap image_pal fw fh F w = Done () w' \<and>
           trace w' = trace w @ replicate (length (group w)) Pop @ [Append] @
             concat (map (tick_events name F)
               [0..<length (takeWhile (\<lambda>t. fsub w t start_time < D) readings)]) \<and>
           shown_tiles (trace w') = shown_tiles (trace w) @
             map (\<lambda>i. i mod F) [0..<length (takeWhile (\<lambda>t. fsub w t start_time < D) readings)] \<and>
           shown_tiles (trace w') ! (length (shown_tiles (trace w)) + k) = k mod F \<and>
           k mod F < F \<and> Suc k mod F < F \<and>
           group w' =
             [(the_grid final_bitmap image_pal fw fh)
                \<lparr>tg_tile0 :=
                   (length (takeWhile (\<lambda>t. fsub w t start_time < D) readings) - 1) mod F\<rparr>]"
proof -
  let ?n = "length (takeWhile (\<lambda>t. fsub w t start_time < D) readings)"
  let ?i = "install final_bitmap image_pal fw fh w"
  let ?w' = "(after_ticks name F ?n ?i)\<lparr>clock := tl (dropWhile (\<lambda>t. fsub w t start_time < D) readings)\<rparr>"
  have F: "0 < F" using assms(1) by simp
  have run: "present name D final_bitmap image_pal fw fh F w = Done () ?w'"
    using F assms(2,3) by (rule present_runs)
  have tr: "trace ?w' = trace w @ replicate (length (group w)) Pop @ [Append] @
      concat (map (tick_events name F) [0..<?n])"
    by (simp add: trace_after_ticks install_def)
  have sh: "shown_tiles (trace ?w') = shown_tiles (trace w) @ map (\<lambda>i. i mod F) [0..<?n]"
    by (simp add: tr shown_tiles_append shown_tick_events shown_tiles_replicate)
  have at: "shown_tiles (trace ?w') ! (length (shown_tiles (trace w)) + k) = k mod F"
    unfolding sh using assms(4) by (simp add: nth_append)
  have "group ?i = [the_grid final_bitmap image_pal fw fh]"
    by (simp add: install_def)
  from group_after_ticks [OF this, of name F ?n]
  have "group (after_ticks name F ?n ?i) =
      [(the_grid final_bitmap image_pal fw fh)
         \<lparr>tg_tile0 := (if ?n = 0 then tg_tile0 (the_grid final_bitmap image_pal fw fh)
                       else (?n - 1) mod F)\<rparr>]" .
  moreover have "?n \<noteq> 0"
    using assms(4) by linarith
  ultimately have "group (after_ticks name F ?n ?i) =
      [(the_grid final_bitmap image_pal fw fh)\<lparr>tg_tile0 := (?n - 1) mod F\<rparr>]"
    by (simp only: if_False)
  then have grp: "group ?w' = [(the_grid final_bitmap image_pal fw fh)\<lparr>tg_tile0 := (?n - 1) mod F\<rparr>]"
    by simp
  have "k mod F < F" "Suc k mod F < F"
    using F by simp_all
  with run tr sh at grp show ?thesis by blast
qed

theorem frames_cycle_witness:
  "\<exists>w'. present ''ghost'' (7 / 20) (new_bitmap 128 64 4) [0, 1, 2, 3] 64 64 2
           \<lparr>group = [], clock = [10, 10 + 1 / 10, 10 + 1 / 5, 10 + 3 / 10, 10 + 2 / 5],
            fsub = (-), trace = []\<rparr> = Done () w' \<and>
        shown_tiles (trace w') = [0, 1, 0] \<and>
        shown_tiles (trace w') ! 2 = 0 \<and>
        group w' = [(the_grid (new_bitmap 128 64 4) [0, 1, 2, 3] 64 64)\<lparr>tg_tile0 := 0\<rparr>]"
proof -
  let ?w = "\<lparr>group = [], clock = [10, 10 + 1 / 10, 10 + 1 / 5, 10 + 3 / 10, 10 + 2 / 5],
            fsub = (-), trace = []\<rparr>"
  let ?rs = "[10 + 1 / 10, 10 + 1 / 5, 10 + 3 / 10, 10 + 2 / 5] :: rat list"
  have n: "length (takeWhile (\<lambda>t. fsub ?w t 10 < 7 / 20) ?rs) = 3"
    by simp
  have F: "(1::nat) \<le> 2" "(2::nat) \<le> 256"
    by simp_all
  have c: "clock ?w = 10 # ?rs"
    by simp
  have k: "2 < length (takeWhile (\<lambda>t. fsub ?w t 10 < 7 / 20) ?rs)"
    by (simp only: n)
  from frames_cycle [OF F c k, of "''ghost''" "new_bitmap 128 64 4" "[0, 1, 2, 3]" 64 64]
  obtain w' where
    a: "present ''ghost'' (7 / 20) (new_bitmap 128 64 4) [0, 1, 2, 3] 64 64 2 ?w = Done () w'"
       "shown_tiles (trace w') = shown_tiles (trace ?w) @
          map (\<lambda>i. i mod 2) [0..<length (takeWhile (\<lambda>t. fsub ?w t 10 < 7 / 20) ?rs)]"
       "shown_tiles (trace w') ! (length (shown_tiles (trace ?w)) + 2) = 2 mod 2"
       "group w' = [(the_grid (new_bitmap 128 64 4) [0, 1, 2, 3] 64 64)
          \<lparr>tg_tile0 := (length (takeWhile (\<lambda>t. fsub ?w t 10 < 7 / 20) ?rs) - 1) mod 2\<rparr>]"
    by blast
  have "shown_tiles (trace w') = [0, 1, 0]"
    using a(2) unfolding n by (simp add: upt_rec)
  moreover have "shown_tiles (trace w') ! 2 = 0"
    using a(3) by (simp add: numeral_2_eq_2)
  moreover have "group w' = [(the_grid (new_bitmap 128 64 4) [0, 1, 2, 3] 64 64)\<lparr>tg_tile0 := 0\<rparr>]"
    using a(4) unfolding n by simp
  ultimately show ?thesis
    using a(1) by blast
qed





section \<open>The transition\<close>

text \<open>
  Claim C8. \<^verbatim>\<open>transition_to_black\<close> first takes every member off the group, one
  \<^verbatim>\<open>group.pop()\<close> each, and only then sleeps \<open>transition_frames\<close> times for
  \<open>animation_speed\<close>: the pops come before the sleeps, and the group is empty before the
  first sleep and after every one of them. It writes no tile, prints nothing and does not
  read the clock. The main loop calls it after a clip that played and after a clip that
  raised alike, so the group is empty when the next clip starts.
\<close>

theorem transition_blanks_then_waits:
  "trace (transition_to_black w) =
     trace w @ replicate (length (group w)) Pop @
       replicate transition_frames (Sleep animation_speed) \<and>
   group (pop_all w) = [] \<and>
   trace (pop_all w) = trace w @ replicate (length (group w)) Pop \<and>
   group (sleep_ticks k (pop_all w)) = [] \<and>
   trace (sleep_ticks k (pop_all w)) =
     trace w @ replicate (length (group w)) Pop @ replicate k (Sleep animation_speed) \<and>
   transition_to_black w = sleep_ticks transition_frames (pop_all w) \<and>
   group (transition_to_black w) = [] \<and>
   clock (transition_to_black w) = clock w \<and>
   shown_tiles (trace (transition_to_black w)) = shown_tiles (trace w) \<and>
   printed (trace (transition_to_black w)) = printed (trace w) \<and>
   run_clip files name w0 =
     transition_to_black
       (case play_animation files name play_time w0 of
          Done u w1 \<Rightarrow> w1
        | Raised e w1 \<Rightarrow> print_line (ErrorLine name e) w1) \<and>
   group (run_clip files name w0) = []"
proof -
  have a: "trace (transition_to_black w) =
     trace w @ replicate (length (group w)) Pop @
       replicate transition_frames (Sleep animation_speed)"
    "group (transition_to_black w) = []" "clock (transition_to_black w) = clock w"
    by (simp_all add: transition_closed)
  have b: "group (pop_all w) = []" "trace (pop_all w) = trace w @ replicate (length (group w)) Pop"
    by (simp_all add: pop_all_closed)
  have c: "group (sleep_ticks k (pop_all w)) = []"
    "trace (sleep_ticks k (pop_all w)) =
       trace w @ replicate (length (group w)) Pop @ replicate k (Sleep animation_speed)"
    by (simp_all add: sleep_ticks_closed pop_all_closed)
  have d: "transition_to_black w = sleep_ticks transition_frames (pop_all w)"
    by (simp add: transition_to_black_def)
  have e: "shown_tiles (trace (transition_to_black w)) = shown_tiles (trace w)"
    "printed (trace (transition_to_black w)) = printed (trace w)"
    by (simp_all add: a(1) shown_tiles_append printed_append shown_tiles_replicate
        printed_replicate)
  have f: "run_clip files name w0 =
     transition_to_black
       (case play_animation files name play_time w0 of
          Done u w1 \<Rightarrow> w1
        | Raised e w1 \<Rightarrow> print_line (ErrorLine name e) w1)"
    by (simp add: run_clip_def split: outcome.splits)
  have g: "group (run_clip files name w0) = []"
    by (simp only: f) (simp add: transition_closed)
  show ?thesis
    using a b c d e f g by blast
qed

section \<open>Errors of one clip\<close>

lemma present_zero_division:
  assumes "present name D final_bitmap image_pal fw fh F w = Raised ZeroDivisionError w1"
  shows "trace w1 = trace w @ replicate (length (group w)) Pop @ [Append, SetTile 0]"
proof -
  have F: "F = 0"
  proof (rule ccontr)
    assume "F \<noteq> 0"
    then have "0 < F" by simp
    from present_divides [OF this, of name D final_bitmap image_pal fw fh w] assms
    show False by simp
  qed
  let ?i = "install final_bitmap image_pal fw fh w"
  show ?thesis
  proof (cases "clock w")
    case Nil
    then show ?thesis using assms by (simp add: present_unfold)
  next
    case (Cons s cs)
    then have loop: "playback_loop name 0 s D 0 (?i\<lparr>clock := cs\<rparr>) = Raised ZeroDivisionError w1"
      using assms F by (simp add: present_unfold)
    show ?thesis
    proof (cases cs)
      case Nil
      then show ?thesis using loop by (simp add: playback_loop_out)
    next
      case (Cons t later)
      then have c: "clock (?i\<lparr>clock := cs\<rparr>) = t # later" by simp
      show ?thesis
      proof (cases "fsub (?i\<lparr>clock := cs\<rparr>) t s < D")
        case True
        from playback_loop_no_frames [OF c True, of 0 name] loop
        have "w1 = write_tile 0 (?i\<lparr>clock := cs, clock := later\<rparr>)"
          by simp
        then show ?thesis
          by (simp add: write_tile_def install_def)
      next
        case False
        from playback_loop_late [OF c False, of name 0 0] loop
        show ?thesis by simp
      qed
    qed
  qed
qed

lemma play_animation_raised:
  assumes "play_animation files name D w = Raised e w1" "\<forall>i. e \<noteq> TileValueError i"
  shows "\<exists>l. trace w1 = trace w @ l \<and> filter (mentions name) l = []"
proof (cases "files (bmp_file_path name)")
  case (Inl err)
  then show ?thesis using assms(1) by (simp add: play_animation_def)
next
  case (Inr loaded)
  obtain image_bit image_pal where loaded: "loaded = (image_bit, image_pal)"
    by (cases loaded)
  note pa = play_animation_loaded [of files name image_bit image_pal D w]
  show ?thesis
  proof (cases "prepare name image_bit image_pal w")
    case (Raised e' w')
    then have w1: "w1 = w'"
      using assms(1) Inr loaded by (simp add: pa)
    have "w' = w \<or> w' = print_line ScalingNotice w"
      using Raised by (auto simp: prepare_def Let_def split: if_splits sum.splits)
    then show ?thesis
      using w1 by (auto simp: print_line_def)
  next
    case (Done r w')
    obtain fb fw fh F where r: "r = (fb, fw, fh, F)"
      by (cases r)
    have w': "w' = print_line ScalingNotice w \<or> w' = print_line FullScreenNotice w"
      using prepare_done [of name image_bit image_pal w fb fw fh F w'] Done r by auto
    have p: "present name D fb image_pal fw fh F w' = Raised e w1"
      using assms(1) Inr loaded Done r by (simp add: pa)
    then have "raised_error (present name D fb image_pal fw fh F w') = Some e"
      by simp
    with present_outcome [of name D fb image_pal fw fh F w'] assms(2)
    have "e = ZeroDivisionError" by blast
    with p have "trace w1 = trace w' @ replicate (length (group w')) Pop @ [Append, SetTile 0]"
      by (simp add: present_zero_division)
    moreover have "filter (mentions name) (replicate n Pop) = []" for n
      by (induction n) simp_all
    ultimately show ?thesis
      using w' by (auto simp: print_line_def)
  qed
qed

text \<open>
  Claim C2. When \<^verbatim>\<open>play_animation\<close> raises for a clip, whatever the error, the main loop
  catches it and prints one line with the clip's name and the error; then it runs the
  transition, which leaves the group empty, and goes on with the rest of the list. Unless
  the error is the one of a tile index above 255, which comes after frames were played
  and reported, that line is the only one of the clip's turn that carries its name. The
  list is run in its written order, pass after pass without end: the state after pass
  \<open>n + 1\<close> of \<^verbatim>\<open>while True\<close> is \<open>n + 1\<close> runs of the list from the start, and every pass
  adds to the output.
\<close>

theorem clip_errors_are_contained:
  assumes "play_animation files name play_time w = Raised e w1"
  shows "run_clip files name w = transition_to_black (print_line (ErrorLine name e) w1) \<and>
         trace (run_clip files name w) =
           trace w1 @ [Print (ErrorLine name e)] @ replicate (length (group w1)) Pop @
             replicate transition_frames (Sleep animation_speed) \<and>
         printed (trace (run_clip files name w)) = printed (trace w1) @ [ErrorLine name e] \<and>
         ((\<forall>i. e \<noteq> TileValueError i) \<longrightarrow>
            (\<exists>new. trace (run_clip files name w) = trace w @ new \<and>
                   filter (mentions name) new = [Print (ErrorLine name e)])) \<and>
         group (run_clip files name w) = [] \<and>
         play_clips files (name # rest) w = play_clips files rest (run_clip files name w) \<and>
         play_clips files bitmap_names w0 =
           run_clip files ''mona-half'' (run_clip files ''girl-earing-half''
             (run_clip files ''parrot'' (run_clip files ''ghost''
               (run_clip files ''octopus'' w0)))) \<and>
         main_loop files w0 !! n = (play_clips files bitmap_names ^^ Suc n) w0 \<and>
         main_loop files w0 !! Suc n = play_clips files bitmap_names (main_loop files w0 !! n) \<and>
         (\<exists>new. trace (main_loop files w0 !! Suc n) = trace (main_loop files w0 !! n) @ new \<and>
                new \<noteq> [])"
proof -
  have run: "run_clip files name w = transition_to_black (print_line (ErrorLine name e) w1)"
    using assms by (simp add: run_clip_def)
  have tr: "trace (run_clip files name w) =
           trace w1 @ [Print (ErrorLine name e)] @ replicate (length (group w1)) Pop @
             replicate transition_frames (Sleep animation_speed)"
    by (simp add: run transition_closed print_line_def)
  have pr: "printed (trace (run_clip files name w)) = printed (trace w1) @ [ErrorLine name e]"
    by (simp add: tr printed_append printed_replicate)
  have quiet: "filter (mentions name) (replicate k Pop) = []"
    "filter (mentions name) (replicate k (Sleep d)) = []" for k d
    by (induction k) simp_all
  have one: "\<exists>new. trace (run_clip files name w) = trace w @ new \<and>
                   filter (mentions name) new = [Print (ErrorLine name e)]"
    if "\<forall>i. e \<noteq> TileValueError i"
  proof -
    from play_animation_raised [OF assms that] obtain l where
      l: "trace w1 = trace w @ l" "filter (mentions name) l = []"
      by blast
    let ?new = "l @ [Print (ErrorLine name e)] @ replicate (length (group w1)) Pop @
        replicate transition_frames (Sleep animation_speed)"
    have "trace (run_clip files name w) = trace w @ ?new"
      by (simp add: tr l(1))
    moreover have "filter (mentions name) ?new = [Print (ErrorLine name e)]"
      using l(2) by (simp add: quiet)
    ultimately show ?thesis by blast
  qed
  have grp: "group (run_clip files name w) = []"
    by (simp add: run transition_closed)
  have nxt: "play_clips files (name # rest) w = play_clips files rest (run_clip files name w)"
    by simp
  have order: "play_clips files bitmap_names w0 =
           run_clip files ''mona-half'' (run_clip files ''girl-earing-half''
             (run_clip files ''parrot'' (run_clip files ''ghost''
               (run_clip files ''octopus'' w0))))"
    by (simp add: bitmap_names_def)
  have pass: "main_loop files w0 !! n = (play_clips files bitmap_names ^^ Suc n) w0"
    by (rule main_loop_pass)
  have step: "main_loop files w0 !! Suc n = play_clips files bitmap_names (main_loop files w0 !! n)"
    by (simp only: main_loop_pass funpow.simps o_apply)
  have "bitmap_names \<noteq> []"
    by (simp add: bitmap_names_def)
  with play_clips_trace [of files bitmap_names "main_loop files w0 !! n"]
  have more: "\<exists>new. trace (main_loop files w0 !! Suc n) = trace (main_loop files w0 !! n) @ new \<and>
                new \<noteq> []"
    by (simp only: step) blast
  show ?thesis
    using run tr pr one grp nxt order pass step more by blast
qed

theorem clip_errors_are_contained_witness:
  "run_clip (\<lambda>p. Inl (LoadError p)) ''ghost'' \<lparr>group = [], clock = [], fsub = (-), trace = []\<rparr> =
     transition_to_black
       (print_line (ErrorLine ''ghost'' (LoadError ''/graphics/ghost.bmp''))
          \<lparr>group = [], clock = [], fsub = (-), trace = []\<rparr>) \<and>
   printed (trace (run_clip (\<lambda>p. Inl (LoadError p)) ''ghost''
       \<lparr>group = [], clock = [], fsub = (-), trace = []\<rparr>)) =
     [ErrorLine ''ghost'' (LoadError ''/graphics/ghost.bmp'')] \<and>
   filter (mentions ''ghost'') (trace (run_clip (\<lambda>p. Inl (LoadError p)) ''ghost''
       \<lparr>group = [], clock = [], fsub = (-), trace = []\<rparr>)) =
     [Print (ErrorLine ''ghost'' (LoadError ''/graphics/ghost.bmp''))] \<and>
   main_loop (\<lambda>p. Inl (LoadError p)) \<lparr>group = [], clock = [], fsub = (-), trace = []\<rparr> !! 1 =
     play_clips (\<lambda>p. Inl (LoadError p)) bitmap_names
       (main_loop (\<lambda>p. Inl (LoadError p)) \<lparr>group = [], clock = [], fsub = (-), trace = []\<rparr> !! 0)"
proof -
  let ?w = "\<lparr>group = [], clock = [], fsub = (-), trace = []\<rparr>"
  let ?files = "\<lambda>p :: string. (Inl (LoadError p) :: error + bitmap \<times> palette)"
  let ?e = "LoadError ''/graphics/ghost.bmp''"
  have raised: "play_animation ?files ''ghost'' play_time ?w = Raised ?e ?w"
    by (simp add: play_animation_def bmp_file_path_def image_path_def)
  have other: "\<forall>i. ?e \<noteq> TileValueError i"
    by simp
  from clip_errors_are_contained [OF raised, of "[]" ?w 0] other
  have a: "run_clip ?files ''ghost'' ?w = transition_to_black (print_line (ErrorLine ''ghost'' ?e) ?w)"
    and b: "printed (trace (run_clip ?files ''ghost'' ?w)) =
      printed (trace ?w) @ [ErrorLine ''ghost'' ?e]"
    and c: "main_loop ?files ?w !! Suc 0 = play_clips ?files bitmap_names (main_loop ?files ?w !! 0)"
    and d: "\<exists>new. trace (run_clip ?files ''ghost'' ?w) = trace ?w @ new \<and>
        filter (mentions ''ghost'') new = [Print (ErrorLine ''ghost'' ?e)]"
    by blast+
  from d have "filter (mentions ''ghost'') (trace (run_clip ?files ''ghost'' ?w)) =
      [Print (ErrorLine ''ghost'' ?e)]"
    by auto
  then show ?thesis
    using a b c by simp
qed

section \<open>The geometry error\<close>

text \<open>
  Claim C3. For a bitmap that was loaded, \<^verbatim>\<open>play_animation\<close> raises the geometry error,
  the \<^verbatim>\<open>ValueError\<close> of its own three \<^verbatim>\<open>raise\<close> statements, exactly when the height is
  neither 32 nor 64, or the height is 32 and the width is not a multiple of 32, or the
  height is 64 and the width is not a multiple of 64. A bitmap of height 16 always raises
  it, and the main loop then prints the error, runs the transition and goes on with the
  next clip.
\<close>

theorem geometry_error_exactly_when:
  assumes "files (bmp_file_path name) = Inr (image_bit, image_pal)"
  shows "((\<exists>g w1. play_animation files name D w = Raised (ValueError g) w1) \<longleftrightarrow>
            (bheight image_bit \<noteq> 32 \<and> bheight image_bit \<noteq> 64) \<or>
            (bheight image_bit = 32 \<and> bwidth image_bit mod 32 \<noteq> 0) \<or>
            (bheight image_bit = 64 \<and> bwidth image_bit mod 64 \<noteq> 0)) \<and>
         ((\<exists>g w1. prepare name image_bit image_pal w = Raised (ValueError g) w1) \<longleftrightarrow>
            (bheight image_bit \<noteq> 32 \<and> bheight image_bit \<noteq> 64) \<or>
            (bheight image_bit = 32 \<and> bwidth image_bit mod 32 \<noteq> 0) \<or>
            (bheight image_bit = 64 \<and> bwidth image_bit mod 64 \<noteq> 0)) \<and>
         (bheight image_bit = 16 \<longrightarrow>
            play_animation files name D w = Raised (ValueError (BadHeight name 16)) w \<and>
            run_clip files name w =
              transition_to_black (print_line (ErrorLine name (ValueError (BadHeight name 16))) w) \<and>
            play_clips files (name # rest) w =
              play_clips files rest
                (transition_to_black
                   (print_line (ErrorLine name (ValueError (BadHeight name 16))) w)))"
proof -
  let ?bad = "(bheight image_bit \<noteq> 32 \<and> bheight image_bit \<noteq> 64) \<or>
            (bheight image_bit = 32 \<and> bwidth image_bit mod 32 \<noteq> 0) \<or>
            (bheight image_bit = 64 \<and> bwidth image_bit mod 64 \<noteq> 0)"
  note pa = play_animation_loaded [of files name image_bit image_pal, OF assms]
  have bad_prep: "\<exists>g. prepare name image_bit image_pal w = Raised (ValueError g) w" if ?bad
    using that prepare_rejects [of image_bit name image_pal w] by blast
  have good_prep: "\<exists>r w'. prepare name image_bit image_pal w = Done r w'" if nb: "\<not> ?bad"
  proof -
    consider "bheight image_bit = 32" "bwidth image_bit mod 32 = 0"
      | "bheight image_bit = 64" "bwidth image_bit mod 64 = 0"
      using nb by blast
    then show ?thesis
    proof cases
      case 1
      then show ?thesis by (simp add: prepare_legacy)
    next
      case 2
      then show ?thesis by (simp add: prepare_target)
    qed
  qed
  have prep: "(\<exists>g w1. prepare name image_bit image_pal w = Raised (ValueError g) w1) \<longleftrightarrow> ?bad"
  proof
    assume "\<exists>g w1. prepare name image_bit image_pal w = Raised (ValueError g) w1"
    then show ?bad using good_prep by fastforce
  next
    assume ?bad
    then show "\<exists>g w1. prepare name image_bit image_pal w = Raised (ValueError g) w1"
      using bad_prep by blast
  qed
  have play: "(\<exists>g w1. play_animation files name D w = Raised (ValueError g) w1) \<longleftrightarrow> ?bad"
  proof
    assume "\<exists>g w1. play_animation files name D w = Raised (ValueError g) w1"
    then obtain g w1 where r: "play_animation files name D w = Raised (ValueError g) w1"
      by blast
    show ?bad
    proof (rule ccontr)
      assume "\<not> ?bad"
      from good_prep [OF this] obtain r' w' where "prepare name image_bit image_pal w = Done r' w'"
        by blast
      then show False
        using r present_not_value_error by (simp add: pa)
    qed
  next
    assume ?bad
    from bad_prep [OF this] obtain g where "prepare name image_bit image_pal w = Raised (ValueError g) w"
      by blast
    then show "\<exists>g w1. play_animation files name D w = Raised (ValueError g) w1"
      by (simp add: pa)
  qed
  have h16: "play_animation files name D' w = Raised (ValueError (BadHeight name 16)) w"
    if "bheight image_bit = 16" for D'
    using that
    by (simp add: play_animation_loaded [of files name image_bit image_pal, OF assms]
        prepare_rejects(3))
  have sixteen: "bheight image_bit = 16 \<longrightarrow>
            play_animation files name D w = Raised (ValueError (BadHeight name 16)) w \<and>
            run_clip files name w =
              transition_to_black (print_line (ErrorLine name (ValueError (BadHeight name 16))) w) \<and>
            play_clips files (name # rest) w =
              play_clips files rest
                (transition_to_black
                   (print_line (ErrorLine name (ValueError (BadHeight name 16))) w))"
    using h16 by (simp add: run_clip_def)
  show ?thesis
    using play prep sixteen by blast
qed

theorem geometry_error_exactly_when_witness:
  "play_animation (\<lambda>p. Inr (new_bitmap 16 16 2, [0, 1])) ''ghost'' play_time
     \<lparr>group = [], clock = [], fsub = (-), trace = []\<rparr> =
     Raised (ValueError (BadHeight ''ghost'' 16)) \<lparr>group = [], clock = [], fsub = (-), trace = []\<rparr> \<and>
   run_clip (\<lambda>p. Inr (new_bitmap 16 16 2, [0, 1])) ''ghost''
     \<lparr>group = [], clock = [], fsub = (-), trace = []\<rparr> =
     transition_to_black
       (print_line (ErrorLine ''ghost'' (ValueError (BadHeight ''ghost'' 16)))
          \<lparr>group = [], clock = [], fsub = (-), trace = []\<rparr>)"
proof -
  let ?files = "\<lambda>p :: string. (Inr (new_bitmap 16 16 2, [0, 1]) :: error + bitmap \<times> palette)"
  have loaded: "?files (bmp_file_path ''ghost'') = Inr (new_bitmap 16 16 2, [0, 1])"
    by simp
  have h: "bheight (new_bitmap 16 16 2) = 16"
    by (simp add: new_bitmap_def)
  from geometry_error_exactly_when [of ?files "''ghost''" "new_bitmap 16 16 2" "[0, 1]" play_time
      "\<lparr>group = [], clock = [], fsub = (-), trace = []\<rparr>" "[]", OF loaded] h
  show ?thesis by blast
qed

section \<open>What playback installs\<close>

text \<open>
  Claim C4. A strip of height 64 whose width is a multiple of 64 passes the check and is
  not scaled: the bitmap handed to playback, and held by the grid in the group afterwards,
  is the loaded bitmap itself. So a strip that the scaling step produced, given to the
  check again, comes back as it is.
\<close>

theorem target_size_strip_is_unchanged:
  assumes "bheight image_bit = 64" "bwidth image_bit mod 64 = 0"
    and "files (bmp_file_path name) = Inr (image_bit, image_pal)"
    and "bheight legacy_bit = 32" "bwidth legacy_bit mod 32 = 0"
  shows "prepare name image_bit image_pal w =
           Done (image_bit, 64, 64, bwidth image_bit div 64) (print_line FullScreenNotice w) \<and>
         (\<exists>g. group (world_of (play_animation files name D w)) = [g] \<and>
              tg_bitmap g = image_bit \<and> tg_pixel_shader g = image_pal) \<and>
         (\<exists>scaled. scale_strip legacy_bit legacy_pal = Inr scaled \<and>
              prepare name scaled legacy_pal w =
                Done (scaled, 64, 64, bwidth legacy_bit div 32) (print_line FullScreenNotice w))"
proof -
  have prep: "prepare name image_bit image_pal w =
           Done (image_bit, 64, 64, bwidth image_bit div 64) (print_line FullScreenNotice w)"
    using assms(1,2) by (rule prepare_target)
  have "play_animation files name D w =
      present name D image_bit image_pal 64 64 (bwidth image_bit div 64)
        (print_line FullScreenNotice w)"
    by (simp add: play_animation_loaded [of files name image_bit image_pal, OF assms(3)] prep)
  then have inst: "\<exists>g. group (world_of (play_animation files name D w)) = [g] \<and>
              tg_bitmap g = image_bit \<and> tg_pixel_shader g = image_pal"
    by (simp only: present_installs)
  let ?s = "\<lparr>bwidth = bwidth legacy_bit div 32 * 64, bheight = 64,
            value_count = length legacy_pal,
            pixels = map (\<lambda>Y. map (\<lambda>X. replicated legacy_bit X Y)
                       [0..<bwidth legacy_bit div 32 * 64]) [0..<64]\<rparr>"
  have s: "scale_strip legacy_bit legacy_pal = Inr ?s"
    by (rule scale_strip_closed_form [OF assms(4,5)])
  have "bheight ?s = 64" "bwidth ?s mod 64 = 0"
    by simp_all
  from prepare_target [OF this, of name legacy_pal w]
  have "prepare name ?s legacy_pal w =
      Done (?s, 64, 64, bwidth legacy_bit div 32) (print_line FullScreenNotice w)"
    by simp
  with s have again: "\<exists>scaled. scale_strip legacy_bit legacy_pal = Inr scaled \<and>
              prepare name scaled legacy_pal w =
                Done (scaled, 64, 64, bwidth legacy_bit div 32) (print_line FullScreenNotice w)"
    by blast
  show ?thesis
    using prep inst again by blast
qed

theorem target_size_strip_is_unchanged_witness:
  "prepare ''mona-half'' (new_bitmap 64 64 4) [0, 1, 2, 3] \<lparr>group = [], clock = [], fsub = (-), trace = []\<rparr> =
     Done (new_bitmap 64 64 4, 64, 64, 1)
       (print_line FullScreenNotice \<lparr>group = [], clock = [], fsub = (-), trace = []\<rparr>) \<and>
   (\<exists>g. group (world_of (play_animation (\<lambda>p. Inr (new_bitmap 64 64 4, [0, 1, 2, 3])) ''mona-half''
             play_time \<lparr>group = [], clock = [], fsub = (-), trace = []\<rparr>)) = [g] \<and>
        tg_bitmap g = new_bitmap 64 64 4) \<and>
   (\<exists>scaled. scale_strip (new_bitmap 96 32 4) [0, 1, 2, 3] = Inr scaled \<and>
        prepare ''mona-half'' scaled [0, 1, 2, 3] \<lparr>group = [], clock = [], fsub = (-), trace = []\<rparr> =
          Done (scaled, 64, 64, 3) (print_line FullScreenNotice \<lparr>group = [], clock = [], fsub = (-), trace = []\<rparr>))"
proof -
  let ?files = "\<lambda>p :: string. (Inr (new_bitmap 64 64 4, [0, 1, 2, 3]) :: error + bitmap \<times> palette)"
  let ?w = "\<lparr>group = [], clock = [], fsub = (-), trace = []\<rparr>"
  have a: "bheight (new_bitmap 64 64 4) = 64" "bwidth (new_bitmap 64 64 4) mod 64 = 0"
    by (simp_all add: new_bitmap_def)
  have b: "?files (bmp_file_path ''mona-half'') = Inr (new_bitmap 64 64 4, [0, 1, 2, 3])"
    by simp
  have c: "bheight (new_bitmap 96 32 4) = 32" "bwidth (new_bitmap 96 32 4) mod 32 = 0"
    by (simp_all add: new_bitmap_def)
  have d: "bwidth (new_bitmap 64 64 4) div 64 = 1" "bwidth (new_bitmap 96 32 4) div 32 = 3"
    by (simp_all add: new_bitmap_def)
  from target_size_strip_is_unchanged [of "new_bitmap 64 64 4" ?files "''mona-half''" "[0, 1, 2, 3]"
      "new_bitmap 96 32 4" ?w play_time "[0, 1, 2, 3]", OF a b c]
  show ?thesis
    unfolding d by blast
qed

section \<open>The frame count\<close>

text \<open>
  Claim C7. When the check passes, both tile sides are 64 and the frame count is the
  width divided by 32 for a strip of height 32 and the width divided by 64 for a strip
  of height 64. A strip of height 32 and width 96 has 3 frames and is scaled to a strip
  192 wide and 64 high.
\<close>

theorem frame_count_is_width_over_tile:
  assumes "prepare name image_bit image_pal w = Done (final_bitmap, fw, fh, total_frames) w1"
  shows "fw = 64 \<and> fh = 64 \<and>
         (bheight image_bit = 32 \<or> bheight image_bit = 64) \<and>
         (bheight image_bit = 32 \<longrightarrow>
            total_frames = bwidth image_bit div 32 \<and>
            bwidth final_bitmap = total_frames * 64 \<and> bheight final_bitmap = 64) \<and>
         (bheight image_bit = 64 \<longrightarrow> total_frames = bwidth image_bit div 64) \<and>
         (bheight image_bit = 32 \<and> bwidth image_bit = 96 \<longrightarrow>
            total_frames = 3 \<and> bwidth final_bitmap = 192 \<and> bheight final_bitmap = 64)"
proof -
  note d = prepare_done [OF assms]
  have legacy: "total_frames = bwidth image_bit div 32 \<and>
      bwidth final_bitmap = total_frames * 64 \<and> bheight final_bitmap = 64"
    if h: "bheight image_bit = 32"
  proof -
    have m: "bwidth image_bit mod 32 = 0" and F: "total_frames = bwidth image_bit div 32"
      and s: "scale_strip image_bit image_pal = Inr final_bitmap"
      using d h by simp_all
    from s have "bwidth final_bitmap = bwidth image_bit div 32 * 64 \<and> bheight final_bitmap = 64"
      by (auto simp: scale_strip_closed_form [OF h m])
    with F show ?thesis by simp
  qed
  have target: "total_frames = bwidth image_bit div 64" if "bheight image_bit = 64"
    using d that by simp
  have octopus: "total_frames = 3 \<and> bwidth final_bitmap = 192 \<and> bheight final_bitmap = 64"
    if "bheight image_bit = 32 \<and> bwidth image_bit = 96"
    using legacy that by simp
  have "bheight image_bit = 32 \<or> bheight image_bit = 64"
    using d by blast
  moreover have "fw = 64" "fh = 64"
    using d by simp_all
  ultimately show ?thesis
    using legacy target octopus by blast
qed

theorem frame_count_is_width_over_tile_witness:
  "\<exists>scaled.
     prepare ''octopus'' (new_bitmap 96 32 4) [0, 1, 2, 3] \<lparr>group = [], clock = [], fsub = (-), trace = []\<rparr> =
       Done (scaled, 64, 64, 3) (print_line ScalingNotice \<lparr>group = [], clock = [], fsub = (-), trace = []\<rparr>) \<and>
     bwidth scaled = 192 \<and> bheight scaled = 64"
proof -
  let ?b = "new_bitmap 96 32 4"
  let ?w = "\<lparr>group = [], clock = [], fsub = (-), trace = []\<rparr>"
  have geo: "bheight ?b = 32" "bwidth ?b mod 32 = 0" "bwidth ?b = 96"
    by (simp_all add: new_bitmap_def)
  let ?s = "\<lparr>bwidth = bwidth ?b div 32 * 64, bheight = 64, value_count = length [0::nat, 1, 2, 3],
            pixels = map (\<lambda>Y. map (\<lambda>X. replicated ?b X Y) [0..<bwidth ?b div 32 * 64]) [0..<64]\<rparr>"
  have run: "prepare ''octopus'' ?b [0, 1, 2, 3] ?w =
      Done (?s, 64, 64, bwidth ?b div 32) (print_line ScalingNotice ?w)"
    by (rule prepare_legacy [OF geo(1,2)])
  from frame_count_is_width_over_tile [OF run] geo
  have "bwidth ?b div 32 = 3 \<and> bwidth ?s = 192 \<and> bheight ?s = 64"
    by blast
  with run show ?thesis
    by (metis (no_types, lifting))
qed

section \<open>Strips without frames\<close>

text \<open>
  Claim C9 says that every bitmap of height 32 or 64 whose width passes the multiple
  check has at least one frame. Width 0 passes the check, being a multiple of 64, and
  gives a frame count of 0; the first advance of the frame index then divides by zero.
\<close>

theorem zero_width_strip_has_no_frames:
  "bheight \<lparr>bwidth = 0, bheight = 64, value_count = 2, pixels = replicate 64 []\<rparr> = 64 \<and>
   bwidth \<lparr>bwidth = 0, bheight = 64, value_count = 2, pixels = replicate 64 []\<rparr> mod 64 = 0 \<and>
   prepare ''octopus'' \<lparr>bwidth = 0, bheight = 64, value_count = 2, pixels = replicate 64 []\<rparr>
       [0, 1] \<lparr>group = [], clock = [0, 0], fsub = (-), trace = []\<rparr> =
     Done (\<lparr>bwidth = 0, bheight = 64, value_count = 2, pixels = replicate 64 []\<rparr>, 64, 64, 0)
       (print_line FullScreenNotice \<lparr>group = [], clock = [0, 0], fsub = (-), trace = []\<rparr>) \<and>
   \<not> 1 \<le> (0 :: nat) \<and>
   py_mod (0 + 1) 0 = Inl ZeroDivisionError \<and>
   present ''octopus'' play_time
       \<lparr>bwidth = 0, bheight = 64, value_count = 2, pixels = replicate 64 []\<rparr> [0, 1] 64 64 0
       (print_line FullScreenNotice \<lparr>group = [], clock = [0, 0], fsub = (-), trace = []\<rparr>) =
     Raised ZeroDivisionError
       (write_tile 0
          (install \<lparr>bwidth = 0, bheight = 64, value_count = 2, pixels = replicate 64 []\<rparr>
             [0, 1] 64 64
             (print_line FullScreenNotice \<lparr>group = [], clock = [], fsub = (-), trace = []\<rparr>)))"
proof -
  let ?b = "\<lparr>bwidth = 0, bheight = 64, value_count = 2, pixels = replicate 64 []\<rparr>"
  let ?w = "print_line FullScreenNotice \<lparr>group = [], clock = [0, 0], fsub = (-), trace = []\<rparr>"
  let ?i = "(install ?b [0, 1] 64 64 ?w)\<lparr>clock := [0]\<rparr>"
  have "present ''octopus'' play_time ?b [0, 1] 64 64 0 ?w =
      playback_loop ''octopus'' 0 0 play_time 0 ?i"
    by (simp add: present_unfold print_line_def)
  also have "\<dots> = Raised ZeroDivisionError (write_tile 0 (?i\<lparr>clock := []\<rparr>))"
    using playback_loop_no_frames [where w = ?i and t = 0 and later = "[]" and s = 0
        and D = play_time and f = 0 and name = "''octopus''"]
    by (simp add: install_def print_line_def play_time_def)
  also have "?i\<lparr>clock := []\<rparr> =
      install ?b [0, 1] 64 64
        (print_line FullScreenNotice \<lparr>group = [], clock = [], fsub = (-), trace = []\<rparr>)"
    by (simp add: install_def print_line_def)
  finally show ?thesis
    by (simp add: prepare_def py_mod_def)
qed

text \<open>
  Claim C9, amended. Every bitmap of positive width that passes the check, with height
  32 or 64 and a width that is a multiple of the tile width, has at least one frame, so
  the advance of the frame index never divides by zero: whatever else happens, playback
  does not raise \<open>ZeroDivisionError\<close>.
\<close>

theorem positive_width_gives_a_frame:
  assumes "0 < bwidth image_bit"
    and "prepare name image_bit image_pal w = Done (final_bitmap, fw, fh, total_frames) w1"
  shows "1 \<le> total_frames \<and>
         py_mod (frame + 1) total_frames = Inr ((frame + 1) mod total_frames) \<and>
         raised_error (present name D final_bitmap image_pal fw fh total_frames w1) \<noteq>
           Some ZeroDivisionError"
proof -
  note d = prepare_done [OF assms(2)]
  have "1 \<le> total_frames"
  proof (cases "bheight image_bit = 32")
    case True
    then have "bwidth image_bit mod 32 = 0" "total_frames = bwidth image_bit div 32"
      using d by simp_all
    then show ?thesis
      using assms(1) by (auto simp: Suc_le_eq div_greater_zero_iff dest: dvd_imp_le)
  next
    case False
    then have "bwidth image_bit mod 64 = 0" "total_frames = bwidth image_bit div 64"
      using d by simp_all
    then show ?thesis
      using assms(1) by (auto simp: Suc_le_eq div_greater_zero_iff dest: dvd_imp_le)
  qed
  then have F: "0 < total_frames" by simp
  then have "py_mod (frame + 1) total_frames = Inr ((frame + 1) mod total_frames)"
    by (simp add: py_mod_def)
  moreover have "raised_error (present name D final_bitmap image_pal fw fh total_frames w1) \<noteq>
      Some ZeroDivisionError"
    using F by (rule present_divides)
  ultimately show ?thesis
    using \<open>1 \<le> total_frames\<close> by blast
qed

theorem positive_width_gives_a_frame_witness:
  "prepare ''mona-half'' (new_bitmap 64 64 4) [0, 1, 2, 3]
     \<lparr>group = [], clock = [0, 0], fsub = (-), trace = []\<rparr> =
     Done (new_bitmap 64 64 4, 64, 64, 1)
       (print_line FullScreenNotice \<lparr>group = [], clock = [0, 0], fsub = (-), trace = []\<rparr>) \<and>
   py_mod (0 + 1) 1 = Inr ((0 + 1) mod 1) \<and>
   raised_error
     (present ''mona-half'' play_time (new_bitmap 64 64 4) [0, 1, 2, 3] 64 64 1
        (print_line FullScreenNotice \<lparr>group = [], clock = [0, 0], fsub = (-), trace = []\<rparr>)) \<noteq>
     Some ZeroDivisionError"
proof -
  let ?w = "\<lparr>group = [], clock = [0, 0], fsub = (-), trace = []\<rparr>"
  have pos: "0 < bwidth (new_bitmap 64 64 4)"
    by (simp add: new_bitmap_def)
  have run: "prepare ''mona-half'' (new_bitmap 64 64 4) [0, 1, 2, 3] ?w =
      Done (new_bitmap 64 64 4, 64, 64, 1) (print_line FullScreenNotice ?w)"
    by (simp add: prepare_def new_bitmap_def)
  from positive_width_gives_a_frame [OF pos run, of 0 play_time] run
  show ?thesis by blast
qed

section \<open>The helper and the loop in \<^verbatim>\<open>play_animation\<close>\<close>

lemma for_each_once: "for_each [0..<1] body s = body 0 s"
  by (cases "body 0 s") simp_all

lemma scale_bitmap_2x_is_one_frame:
  "scale_bitmap_2x source_bitmap source_palette =
     scale_frames source_bitmap 1 (new_bitmap 64 64 (length source_palette))"
proof -
  have "scale_pixel source_bitmap 0 y =
      (\<lambda>x scaled_bitmap.
         case bitmap_get source_bitmap x y of Inl e \<Rightarrow> Inl e
         | Inr pixel_value \<Rightarrow> set_2x2 scaled_bitmap (x * 2) (y * 2) pixel_value)" for y
    by (intro ext) (simp add: scale_pixel_def Let_def split: sum.splits)
  then show ?thesis
    unfolding scale_bitmap_2x_def scale_frames_def for_each_once by simp
qed

text \<open>
  Claim C10. \<^verbatim>\<open>scale_bitmap_2x\<close> and the loop inside \<^verbatim>\<open>play_animation\<close> compute the same
  thing. Take a strip of height 32 that passes the check, one of its frames \<open>f\<close>, and a
  32 by 32 bitmap whose pixels are those of that frame. The helper then returns a 64 by 64
  bitmap whose pixel \<open>(X, Y)\<close> is the pixel \<open>(f * 64 + X, Y)\<close> of the scaled strip, for every
  \<open>X\<close> and \<open>Y\<close> below 64; and on a 32 by 32 bitmap taken as a strip of one frame both give
  the same bitmap.
\<close>

theorem helper_agrees_with_inline_loop:
  assumes "bheight image_bit = 32" "bwidth image_bit mod 32 = 0" "f < bwidth image_bit div 32"
    and "bwidth source_bitmap = 32" "bheight source_bitmap = 32"
    and "\<forall>x<32. \<forall>y<32. bitmap_get source_bitmap x y = bitmap_get image_bit (f * 32 + x) y"
    and "X < 64" "Y < 64"
  shows "\<exists>out scaled.
           scale_bitmap_2x source_bitmap source_palette = Inr out \<and>
           scale_strip image_bit image_pal = Inr scaled \<and>
           bwidth out = 64 \<and> bheight out = 64 \<and>
           bitmap_get out X Y = bitmap_get scaled (f * 64 + X) Y \<and>
           scale_bitmap_2x source_bitmap source_palette = scale_strip source_bitmap source_palette"
proof -
  have src_geo: "bheight source_bitmap = 32" "bwidth source_bitmap mod 32 = 0"
    "bwidth source_bitmap div 32 = 1"
    using assms(4,5) by simp_all
  have same: "scale_bitmap_2x source_bitmap source_palette = scale_strip source_bitmap source_palette"
    by (simp add: scale_bitmap_2x_is_one_frame scale_strip_def src_geo(3))
  have X1: "X < bwidth source_bitmap div 32 * 64"
    using assms(7) by (simp add: src_geo(3))
  from scale_strip_get [OF src_geo(1,2) X1 assms(8), of source_palette] obtain out where
    out: "scale_strip source_bitmap source_palette = Inr out"
         "bwidth out = bwidth source_bitmap div 32 * 64" "bheight out = 64"
         "bitmap_get out X Y = Inr (replicated source_bitmap X Y)"
    by blast
  have Xf: "f * 64 + X < bwidth image_bit div 32 * 64"
  proof -
    have "(f + 1) * 64 \<le> bwidth image_bit div 32 * 64"
      using assms(3) by (simp only: mult_le_mono1 Suc_leI Suc_eq_plus1 [symmetric])
    then show ?thesis using assms(7) by simp
  qed
  from scale_strip_get [OF assms(1,2) Xf assms(8), of image_pal] obtain scaled where
    scaled: "scale_strip image_bit image_pal = Inr scaled"
            "bitmap_get scaled (f * 64 + X) Y = Inr (replicated image_bit (f * 64 + X) Y)"
    by blast
  have half: "X div 2 < 32" "Y div 2 < 32"
    using assms(7,8) by simp_all
  have pos: "(f * 64 + X) div 64 = f" "(f * 64 + X) mod 64 = X" "X div 64 = 0" "X mod 64 = X"
    using assms(7) by simp_all
  have "bitmap_get source_bitmap (X div 2) (Y div 2) =
      bitmap_get image_bit (f * 32 + X div 2) (Y div 2)"
    using assms(6) half by blast
  moreover have "bitmap_get source_bitmap (X div 2) (Y div 2) =
      Inr (pixels source_bitmap ! (Y div 2) ! (X div 2))"
    using half assms(4,5) by (simp add: bitmap_get_def)
  moreover have "bitmap_get image_bit (f * 32 + X div 2) (Y div 2) =
      Inr (pixels image_bit ! (Y div 2) ! (f * 32 + X div 2))"
    using replicated_get [OF assms(1,2) Xf assms(8)]
    by (simp add: pos replicated_def)
  ultimately have "pixels source_bitmap ! (Y div 2) ! (X div 2) =
      pixels image_bit ! (Y div 2) ! (f * 32 + X div 2)"
    by simp
  then have "replicated source_bitmap X Y = replicated image_bit (f * 64 + X) Y"
    by (simp add: replicated_def pos)
  then have px: "bitmap_get out X Y = bitmap_get scaled (f * 64 + X) Y"
    by (simp add: out(4) scaled(2))
  have "bwidth out = 64"
    by (simp add: out(2) src_geo(3))
  then show ?thesis
    using same out(1,3) scaled(1) px by simp
qed

theorem helper_agrees_with_inline_loop_witness:
  "\<exists>out scaled.
     scale_bitmap_2x
       \<lparr>bwidth = 32, bheight = 32, value_count = 4,
        pixels = map (\<lambda>y. map (\<lambda>x. (x + y) mod 4) [0..<32]) [0..<32]\<rparr> [0, 1, 2, 3] = Inr out \<and>
     scale_strip
       \<lparr>bwidth = 64, bheight = 32, value_count = 4,
        pixels = map (\<lambda>y. map (\<lambda>x. (x mod 32 + y) mod 4) [0..<64]) [0..<32]\<rparr> [0, 1, 2, 3]
       = Inr scaled \<and>
     bitmap_get out 7 9 = bitmap_get scaled 71 9"
proof -
  let ?src = "\<lparr>bwidth = 32, bheight = 32, value_count = 4,
        pixels = map (\<lambda>y. map (\<lambda>x. (x + y) mod 4) [0..<32]) [0..<32]\<rparr>"
  let ?img = "\<lparr>bwidth = 64, bheight = 32, value_count = 4,
        pixels = map (\<lambda>y. map (\<lambda>x. (x mod 32 + y) mod 4) [0..<64]) [0..<32]\<rparr>"
  have a: "bheight ?img = 32" "bwidth ?img mod 32 = 0" "1 < bwidth ?img div 32"
    by simp_all
  have b: "bwidth ?src = 32" "bheight ?src = 32"
    by simp_all
  have c: "\<forall>x<32. \<forall>y<32. bitmap_get ?src x y = bitmap_get ?img (1 * 32 + x) y"
    by (simp add: bitmap_get_def)
  have d: "(7::nat) < 64" "(9::nat) < 64"
    by simp_all
  from helper_agrees_with_inline_loop [OF a b c d, of "[0, 1, 2, 3]" "[0, 1, 2, 3]"]
  show ?thesis by auto
qed

end
